theory Spec2Isabelle
  imports Complex_Main "HOL-Library.Word"
begin

section \<open>Errors raised by the gold-annotation code\<close>

text \<open>
  Every \<^verbatim>\<open>raise\<close> of \<^verbatim>\<open>example.pyx\<close> (stored as \<^verbatim>\<open>src/unnamed/part_000\<close>) and of
  \<^verbatim>\<open>src/spacy/gold/new_example.pyx\<close>, and every Python run-time error the modelled
  statements can produce, is a value of \<open>py_error\<close>. A function that can raise returns
  \<open>py_error + 'a\<close>, with \<open>Inl\<close> for the error.
\<close>

datatype py_error =
    LinkEntityMismatchError   \<comment> \<open>\<^verbatim>\<open>ValueError(Errors.E981)\<close> (\<^verbatim>\<open>E984\<close> in new_example.pyx)\<close>
  | AmbiguousLinkError        \<comment> \<open>\<^verbatim>\<open>ValueError(Errors.E980)\<close> (\<^verbatim>\<open>E983\<close> in new_example.pyx)\<close>
  | UnknownTagError           \<comment> \<open>\<^verbatim>\<open>ValueError(Errors.E985)\<close> of new_example.pyx\<close>
  | UnknownDocAttribute string    \<comment> \<open>\<^verbatim>\<open>ValueError("Unknown doc attribute: ...")\<close>\<close>
  | UnknownTokenAttribute string  \<comment> \<open>\<^verbatim>\<open>ValueError("Unknown token attribute: ...")\<close>\<close>
  | UnknownKeyError string        \<comment> \<open>\<^verbatim>\<open>KeyError(Errors.E983...)\<close> of \<^verbatim>\<open>_fix_legacy_dict_data\<close>\<close>
  | UnknownAttrError string       \<comment> \<open>\<^verbatim>\<open>ValueError("Unknown attr: ...")\<close> of new_example.pyx\<close>
  | KeyError string           \<comment> \<open>a missing dictionary key\<close>
  | AttributeError            \<comment> \<open>a method such as \<^verbatim>\<open>items\<close> called on a value that has none\<close>
  | TypeError                 \<comment> \<open>an operation applied to \<^verbatim>\<open>None\<close> or to a value of the wrong type\<close>
  | IndexError                \<comment> \<open>a list or string index out of range\<close>
  | NotFoundError             \<comment> \<open>\<^verbatim>\<open>ValueError\<close> of \<^verbatim>\<open>list.index\<close> when the value is absent\<close>
  | ArrayError                \<comment> \<open>\<^verbatim>\<open>ValueError\<close> of \<^verbatim>\<open>numpy.asarray\<close> on columns of different lengths\<close>
  | OverflowError             \<comment> \<open>an integer that does not fit the array's element type\<close>
  | DocError                  \<comment> \<open>\<^verbatim>\<open>ValueError\<close> raised by the \<^verbatim>\<open>Doc\<close> class\<close>
  | UnexpectedNerError        \<comment> \<open>\<^verbatim>\<open>ValueError("Unexpected type for NER data")\<close>\<close>
  | NameError                 \<comment> \<open>\<^verbatim>\<open>UnboundLocalError\<close>: a local variable read before it is bound\<close>
  | AlignmentError            \<comment> \<open>raised by the \<^verbatim>\<open>Alignment\<close> constructor\<close>
  | NotImplementedError

section \<open>Links: \<^verbatim>\<open>_parse_links\<close>\<close>

text \<open>
  \<^verbatim>\<open>Doc(vocab, words=words)\<close> is built without \<^verbatim>\<open>spaces\<close>, so every token is followed by
  one space: the character offset \<^verbatim>\<open>token.idx\<close> of a token is the offset of the previous
  one plus the previous length plus one. \<open>token_idxs pos words\<close> lists the offsets of
  the tokens, the first at \<open>pos\<close>.
\<close>

fun token_idxs :: "nat \<Rightarrow> string list \<Rightarrow> nat list" where
  "token_idxs pos [] = []"
| "token_idxs pos (w # ws) = pos # token_idxs (pos + length w + 1) ws"

text \<open>A dict built by a comprehension: a later pair overrides an earlier one with the same key.\<close>

definition dict_of :: "('k \<times> 'v) list \<Rightarrow> ('k \<rightharpoonup> 'v)" where
  "dict_of kvs = map_of (rev kvs)"

text \<open>\<^verbatim>\<open>starts = {token.idx: token.i for token in reference}\<close>\<close>

definition starts :: "string list \<Rightarrow> (int \<rightharpoonup> nat)" where
  "starts words = dict_of (zip (map int (token_idxs 0 words)) [0..<length words])"

text \<open>\<^verbatim>\<open>ends = {token.idx + len(token): token.i for token in reference}\<close>\<close>

definition token_ends :: "string list \<Rightarrow> nat list" where
  "token_ends words = map (\<lambda>(p, w). p + length w) (zip (token_idxs 0 words) words)"

definition ends :: "string list \<Rightarrow> (int \<rightharpoonup> nat)" where
  "ends words = dict_of (zip (map int (token_ends words)) [0..<length words])"

text \<open>
  An element of the \<^verbatim>\<open>entities\<close> list as \<^verbatim>\<open>_parse_links\<close> reads it: an offset triple
  \<^verbatim>\<open>(start_char, end_char, label)\<close>, a tag string, or \<^verbatim>\<open>None\<close> (a missing tag).
  \<^verbatim>\<open>ent[0]\<close> and \<^verbatim>\<open>ent[1]\<close> are the two offsets of a triple, two characters of a tag of
  at least two characters, an \<^verbatim>\<open>IndexError\<close> on a shorter tag and a \<^verbatim>\<open>TypeError\<close> on
  \<^verbatim>\<open>None\<close>.
\<close>

datatype ent_item = EOffsets int int string | ETag string | ENoTag

datatype subscr = SInt int | SChr char

fun ent_pair :: "ent_item \<Rightarrow> py_error + (subscr \<times> subscr)" where
  "ent_pair (EOffsets s e l) = Inr (SInt s, SInt e)"
| "ent_pair (ETag t) =
     (case t of c0 # c1 # _ \<Rightarrow> Inr (SChr c0, SChr c1) | _ \<Rightarrow> Inl IndexError)"
| "ent_pair ENoTag = Inl TypeError"

text \<open>\<^verbatim>\<open>entity_map = [(ent[0], ent[1]) for ent in entities]\<close>\<close>

fun entity_map :: "ent_item list \<Rightarrow> py_error + (subscr \<times> subscr) list" where
  "entity_map [] = Inr []"
| "entity_map (e # es) =
     (case ent_pair e of
        Inl err \<Rightarrow> Inl err
      | Inr p \<Rightarrow> (case entity_map es of Inl err \<Rightarrow> Inl err | Inr ps \<Rightarrow> Inr (p # ps)))"

text \<open>
  A \<^verbatim>\<open>links\<close> dict, in iteration order: each key is a pair of character offsets, each
  value a dict from kb-id to weight.
\<close>

type_synonym link = "(int \<times> int) \<times> (string \<times> real) list"

text \<open>The first loop: every link key must be in \<^verbatim>\<open>entity_map\<close>.\<close>

fun check_links :: "(subscr \<times> subscr) list \<Rightarrow> link list \<Rightarrow> py_error + unit" where
  "check_links em [] = Inr ()"
| "check_links em (((start_char, end_char), annot_dict) # ls) =
     (if (SInt start_char, SInt end_char) \<notin> set em then Inl LinkEntityMismatchError
      else check_links em ls)"

text \<open>\<^verbatim>\<open>true_kb_ids\<close>: the keys of \<^verbatim>\<open>annot_dict\<close> whose value equals \<^verbatim>\<open>1.0\<close>, in order.\<close>

fun true_kb_ids :: "(string \<times> real) list \<Rightarrow> string list" where
  "true_kb_ids [] = []"
| "true_kb_ids ((key, v) # kvs) = (if v = 1 then key # true_kb_ids kvs else true_kb_ids kvs)"

text \<open>
  \<^verbatim>\<open>for i in range(start_token, end_token+1): ent_kb_ids[i] = kb\<close>; an index past the
  end of the list raises \<^verbatim>\<open>IndexError\<close>.
\<close>

fun assign_range :: "string list \<Rightarrow> nat list \<Rightarrow> string \<Rightarrow> py_error + string list" where
  "assign_range ent_kb_ids [] kb = Inr ent_kb_ids"
| "assign_range ent_kb_ids (i # is) kb =
     (if i < length ent_kb_ids then assign_range (ent_kb_ids[i := kb]) is kb
      else Inl IndexError)"

text \<open>
  The body of the second loop for one link. \<^verbatim>\<open>starts.get\<close> and \<^verbatim>\<open>ends.get\<close> yield
  \<^verbatim>\<open>None\<close> for an offset that is no token boundary; \<^verbatim>\<open>range(start_token, end_token+1)\<close>
  then raises \<^verbatim>\<open>TypeError\<close>.
\<close>

definition link_entry ::
  "(int \<rightharpoonup> nat) \<Rightarrow> (int \<rightharpoonup> nat) \<Rightarrow> string list \<Rightarrow> link \<Rightarrow> py_error + string list" where
  "link_entry sts ens ent_kb_ids l =
     (let ids = true_kb_ids (snd l) in
      if length ids > 1 then Inl AmbiguousLinkError
      else if length ids = 1 then
        (case (sts (fst (fst l)), ens (snd (fst l))) of
           (Some start_token, Some end_token) \<Rightarrow>
             assign_range ent_kb_ids [start_token..<end_token + 1] (ids ! 0)
         | _ \<Rightarrow> Inl TypeError)
      else Inr ent_kb_ids)"

fun links_loop ::
  "(int \<rightharpoonup> nat) \<Rightarrow> (int \<rightharpoonup> nat) \<Rightarrow> string list \<Rightarrow> link list \<Rightarrow> py_error + string list" where
  "links_loop sts ens ent_kb_ids [] = Inr ent_kb_ids"
| "links_loop sts ens ent_kb_ids (l # ls) =
     (case link_entry sts ens ent_kb_ids l of
        Inl err \<Rightarrow> Inl err
      | Inr ent_kb_ids' \<Rightarrow> links_loop sts ens ent_kb_ids' ls)"

text \<open>\<^verbatim>\<open>_parse_links(vocab, words, links, entities)\<close>; the vocabulary plays no part.\<close>

definition parse_links :: "string list \<Rightarrow> link list \<Rightarrow> ent_item list \<Rightarrow> py_error + string list" where
  "parse_links words links entities =
     (case entity_map entities of
        Inl err \<Rightarrow> Inl err
      | Inr em \<Rightarrow>
          (case check_links em links of
             Inl err \<Rightarrow> Inl err
           | Inr _ \<Rightarrow> links_loop (starts words) (ends words) (replicate (length words) []) links))"

section \<open>Encoding: \<^verbatim>\<open>_annot2array\<close>\<close>

text \<open>
  The two annotation dicts. A dict is an association list in insertion order with unique
  keys. A token field holds a list of strings, of integers or of booleans; a document
  field holds the categories, the entities, the links, or any other value, of which only
  the truth value matters (\<^verbatim>\<open>None\<close>, \<^verbatim>\<open>{}\<close> and \<^verbatim>\<open>[]\<close> are \<open>Other False\<close>).
\<close>

datatype tok_value = TStrs "string list" | TInts "int list" | TBools "bool list"

datatype doc_value =
  Cats "(string \<times> real) list" | Entities "ent_item list" | Links "link list" | Other bool

type_synonym tok_annot = "(string \<times> tok_value) list"
type_synonym doc_annot = "(string \<times> doc_value) list"

fun truthy :: "doc_value \<Rightarrow> bool" where
  "truthy (Cats c) = (c \<noteq> [])"
| "truthy (Entities es) = (es \<noteq> [])"
| "truthy (Links ls) = (ls \<noteq> [])"
| "truthy (Other b) = b"

text \<open>\<^verbatim>\<open>d[key] = value\<close>: an existing key keeps its place, a new key goes last.\<close>

fun dict_set :: "('k \<times> 'v) list \<Rightarrow> 'k \<Rightarrow> 'v \<Rightarrow> ('k \<times> 'v) list" where
  "dict_set [] key v = [(key, v)]"
| "dict_set ((k, w) # kvs) key v =
     (if k = key then (k, v) # kvs else (k, w) # dict_set kvs key v)"

text \<open>
  The \<^verbatim>\<open>links\<close> branch of the first loop of \<^verbatim>\<open>_annot2array\<close> in
  \<^verbatim>\<open>src/unnamed/part_000\<close>, up to the call of \<^verbatim>\<open>_parse_links\<close>:
  \<^verbatim>\<open>doc_annot.get("entities", {})\<close> must be truthy, \<^verbatim>\<open>tok_annot["ORTH"]\<close> must exist.
  A value of the wrong kind under \<^verbatim>\<open>links\<close>, \<^verbatim>\<open>entities\<close> or \<^verbatim>\<open>ORTH\<close> is a
  \<open>TypeError\<close>.
\<close>

definition links_field :: "doc_annot \<Rightarrow> tok_annot \<Rightarrow> doc_value \<Rightarrow> py_error + string list" where
  "links_field doc_annot tok_annot v =
     (let entities = (case map_of doc_annot ''entities'' of
                        None \<Rightarrow> Other False | Some es \<Rightarrow> es)
      in if \<not> truthy entities then Inl LinkEntityMismatchError
         else (case map_of tok_annot ''ORTH'' of
                 None \<Rightarrow> Inl (KeyError ''ORTH'')
               | Some orth \<Rightarrow>
                   (case (orth, v, entities) of
                      (TStrs words, Links links, Entities ents) \<Rightarrow> parse_links words links ents
                    | _ \<Rightarrow> Inl TypeError)))"

text \<open>
  The first loop of \<^verbatim>\<open>_annot2array\<close> in \<^verbatim>\<open>src/unnamed/part_000\<close>, over the items of
  \<^verbatim>\<open>doc_annot\<close>; it may add \<^verbatim>\<open>ENT_KB_ID\<close> to \<^verbatim>\<open>tok_annot\<close>.
\<close>

fun annot2array_doc :: "doc_annot \<Rightarrow> tok_annot \<Rightarrow> doc_annot \<Rightarrow> py_error + tok_annot" where
  "annot2array_doc doc_annot tok_annot [] = Inr tok_annot"
| "annot2array_doc doc_annot tok_annot ((key, v) # items) =
     (if truthy v then
        (if key = ''entities'' then annot2array_doc doc_annot tok_annot items
         else if key = ''links'' then
           (case links_field doc_annot tok_annot v of
              Inl err \<Rightarrow> Inl err
            | Inr ent_kb_ids \<Rightarrow>
                annot2array_doc doc_annot
                  (dict_set tok_annot ''ENT_KB_ID'' (TStrs ent_kb_ids)) items)
         else if key = ''cats'' then annot2array_doc doc_annot tok_annot items
         else Inl (UnknownDocAttribute key))
      else annot2array_doc doc_annot tok_annot items)"

text \<open>
  The vocabulary, as far as encoding uses it: the attribute names \<^verbatim>\<open>IDS\<close>, the string
  store's \<^verbatim>\<open>strings.add\<close> and the morphology's \<^verbatim>\<open>morphology.add\<close>, both returning a
  64-bit id, and \<^verbatim>\<open>Token.iob_strings()\<close>. They live outside the two source files and
  are parameters of the model.
\<close>

record vocab =
  IDS :: "string list"
  strings_add :: "string \<Rightarrow> 64 word"
  strings_get :: "64 word \<Rightarrow> string"
  morphology_add :: "string \<Rightarrow> 64 word"
  morphology_get :: "64 word \<Rightarrow> string"
  iob_strings :: "string list"

text \<open>
  A value collected in \<^verbatim>\<open>values\<close> before the array is built: a Python integer (an
  id, a head offset, a flag; \<^verbatim>\<open>True\<close> and \<^verbatim>\<open>False\<close> are 1 and 0) or a string.
\<close>

datatype cell = CInt int | CStr string

text \<open>\<^verbatim>\<open>[h-i for i, h in enumerate(value)]\<close>\<close>

fun head_offsets :: "nat \<Rightarrow> int list \<Rightarrow> cell list" where
  "head_offsets i [] = []"
| "head_offsets i (h # hs) = CInt (h - int i) # head_offsets (Suc i) hs"

text \<open>\<^verbatim>\<open>values.append(value)\<close> for \<^verbatim>\<open>SENT_START\<close>: the raw values.\<close>

fun raw_cells :: "tok_value \<Rightarrow> cell list" where
  "raw_cells (TInts xs) = map CInt xs"
| "raw_cells (TBools bs) = map (\<lambda>b. CInt (if b then 1 else 0)) bs"
| "raw_cells (TStrs ss) = map CStr ss"

text \<open>\<^verbatim>\<open>[add(v) for v in value]\<close> for a store that takes strings only.\<close>

fun intern :: "(string \<Rightarrow> 64 word) \<Rightarrow> tok_value \<Rightarrow> py_error + cell list" where
  "intern add (TStrs ss) = Inr (map (\<lambda>v. CInt (uint (add v))) ss)"
| "intern add (TInts xs) = (if xs = [] then Inr [] else Inl TypeError)"
| "intern add (TBools bs) = (if bs = [] then Inr [] else Inl TypeError)"

text \<open>The column that one token field contributes in \<^verbatim>\<open>src/unnamed/part_000\<close>.\<close>

definition tok_column :: "vocab \<Rightarrow> string \<Rightarrow> tok_value \<Rightarrow> py_error + cell list" where
  "tok_column voc key v =
     (if key = ''HEAD'' then
        (case v of
           TInts hs \<Rightarrow> Inr (head_offsets 0 hs)
         | TBools bs \<Rightarrow> Inr (head_offsets 0 (map (\<lambda>b. if b then 1 else 0) bs))
         | TStrs ss \<Rightarrow> (if ss = [] then Inr [] else Inl TypeError))
      else if key = ''SENT_START'' then Inr (raw_cells v)
      else if key = ''MORPH'' then intern (morphology_add voc) v
      else intern (strings_add voc) v)"

text \<open>The second loop of \<^verbatim>\<open>_annot2array\<close> in \<^verbatim>\<open>src/unnamed/part_000\<close>.\<close>

fun annot2array_tok :: "vocab \<Rightarrow> tok_annot \<Rightarrow> py_error + (string list \<times> cell list list)" where
  "annot2array_tok voc [] = Inr ([], [])"
| "annot2array_tok voc ((key, v) # items) =
     (if key \<notin> set (IDS voc) then Inl (UnknownTokenAttribute key)
      else if key \<in> {''ORTH'', ''SPACY''} then annot2array_tok voc items
      else (case tok_column voc key v of
              Inl err \<Rightarrow> Inl err
            | Inr col \<Rightarrow>
                (case annot2array_tok voc items of
                   Inl err \<Rightarrow> Inl err
                 | Inr (attrs, vals) \<Rightarrow> Inr (key # attrs, col # vals))))"

text \<open>
  The conversion of one collected value to an unsigned 64-bit array element, as
  \<^verbatim>\<open>numpy.asarray(..., dtype="uint64")\<close> of numpy 1 does it: a negative integer down to
  \<open>- 2 ^ 63\<close> wraps around, an integer outside \<open>- 2 ^ 63 \<dots> 2 ^ 64 - 1\<close> is an
  \<^verbatim>\<open>OverflowError\<close>, a string of decimal digits is read as a number, and any other
  string is a \<^verbatim>\<open>ValueError\<close>.
\<close>

fun digits_value :: "nat \<Rightarrow> string \<Rightarrow> nat option" where
  "digits_value acc [] = Some acc"
| "digits_value acc (c # cs) =
     (if 48 \<le> (of_char c :: nat) \<and> (of_char c :: nat) \<le> 57
      then digits_value (10 * acc + (of_char c - 48)) cs
      else None)"

fun to_uint64 :: "cell \<Rightarrow> py_error + 64 word" where
  "to_uint64 (CInt n) =
     (if - (2 ^ 63) \<le> n \<and> n < 2 ^ 64 then Inr (word_of_int n) else Inl OverflowError)"
| "to_uint64 (CStr s) =
     (case (if s = [] then None else digits_value 0 s) of
        None \<Rightarrow> Inl ArrayError
      | Some n \<Rightarrow> (if n < 2 ^ 64 then Inr (of_nat n) else Inl OverflowError))"

fun uint64_row :: "cell list \<Rightarrow> py_error + 64 word list" where
  "uint64_row [] = Inr []"
| "uint64_row (c # cs) =
     (case to_uint64 c of
        Inl err \<Rightarrow> Inl err
      | Inr w \<Rightarrow> (case uint64_row cs of Inl err \<Rightarrow> Inl err | Inr ws \<Rightarrow> Inr (w # ws)))"

fun uint64_rows :: "cell list list \<Rightarrow> py_error + 64 word list list" where
  "uint64_rows [] = Inr []"
| "uint64_rows (r # rs) =
     (case uint64_row r of
        Inl err \<Rightarrow> Inl err
      | Inr ws \<Rightarrow> (case uint64_rows rs of Inl err \<Rightarrow> Inl err | Inr wss \<Rightarrow> Inr (ws # wss)))"

text \<open>
  \<^verbatim>\<open>numpy.asarray(values, dtype="uint64").T\<close>: the columns must have one length; row
  \<open>i\<close> of the result holds entry \<open>i\<close> of each column.
\<close>

definition asarray_T :: "cell list list \<Rightarrow> py_error + 64 word list list" where
  "asarray_T vals =
     (case vals of
        [] \<Rightarrow> Inr []
      | c # cs \<Rightarrow>
          (if \<forall>d \<in> set cs. length d = length c
           then uint64_rows (map (\<lambda>i. map (\<lambda>col. col ! i) vals) [0..<length c])
           else Inl ArrayError))"

text \<open>\<^verbatim>\<open>_annot2array(vocab, tok_annot, doc_annot)\<close> of \<^verbatim>\<open>src/unnamed/part_000\<close>.\<close>

definition annot2array ::
  "vocab \<Rightarrow> tok_annot \<Rightarrow> doc_annot \<Rightarrow> py_error + (string list \<times> 64 word list list)" where
  "annot2array voc tok_annot doc_annot =
     (case annot2array_doc doc_annot tok_annot doc_annot of
        Inl err \<Rightarrow> Inl err
      | Inr tok_annot' \<Rightarrow>
          (case annot2array_tok voc tok_annot' of
             Inl err \<Rightarrow> Inl err
           | Inr (attrs, vals) \<Rightarrow>
               (case asarray_T vals of
                  Inl err \<Rightarrow> Inl err
                | Inr array \<Rightarrow> Inr (attrs, array))))"

text \<open>
  The token loop of \<^verbatim>\<open>_annot2array\<close> in \<^verbatim>\<open>src/spacy/gold/new_example.pyx\<close>: only
  \<^verbatim>\<open>ORTH\<close> is skipped, and \<^verbatim>\<open>ENT_IOB\<close> has a branch of its own, which looks every tag
  up in \<^verbatim>\<open>Token.iob_strings()\<close> (a value that is no string is never found there).
\<close>

fun index_of :: "'a list \<Rightarrow> 'a \<Rightarrow> nat option" where
  "index_of [] v = None"
| "index_of (x # xs) v = (if x = v then Some 0 else map_option Suc (index_of xs v))"

fun iob_indices :: "string list \<Rightarrow> string list \<Rightarrow> py_error + cell list" where
  "iob_indices iobs [] = Inr []"
| "iob_indices iobs (v # vs) =
     (case index_of iobs v of
        None \<Rightarrow> Inl UnknownTagError
      | Some n \<Rightarrow> (case iob_indices iobs vs of
                    Inl err \<Rightarrow> Inl err
                  | Inr ns \<Rightarrow> Inr (CInt (int n) # ns)))"

definition tok_column_new :: "vocab \<Rightarrow> string \<Rightarrow> tok_value \<Rightarrow> py_error + cell list" where
  "tok_column_new voc key v =
     (if key = ''HEAD'' then
        (case v of
           TInts hs \<Rightarrow> Inr (head_offsets 0 hs)
         | TBools bs \<Rightarrow> Inr (head_offsets 0 (map (\<lambda>b. if b then 1 else 0) bs))
         | TStrs ss \<Rightarrow> (if ss = [] then Inr [] else Inl TypeError))
      else if key = ''SENT_START'' then Inr (raw_cells v)
      else if key = ''MORPH'' then intern (morphology_add voc) v
      else if key = ''ENT_IOB'' then
        (case v of
           TStrs tags \<Rightarrow> iob_indices (iob_strings voc) tags
         | TInts xs \<Rightarrow> (if xs = [] then Inr [] else Inl UnknownTagError)
         | TBools bs \<Rightarrow> (if bs = [] then Inr [] else Inl UnknownTagError))
      else intern (strings_add voc) v)"

fun annot2array_tok_new ::
  "vocab \<Rightarrow> tok_annot \<Rightarrow> py_error + (string list \<times> cell list list)" where
  "annot2array_tok_new voc [] = Inr ([], [])"
| "annot2array_tok_new voc ((key, v) # items) =
     (if key \<notin> set (IDS voc) then Inl (UnknownTokenAttribute key)
      else if key = ''ORTH'' then annot2array_tok_new voc items
      else (case tok_column_new voc key v of
              Inl err \<Rightarrow> Inl err
            | Inr col \<Rightarrow>
                (case annot2array_tok_new voc items of
                   Inl err \<Rightarrow> Inl err
                 | Inr (attrs, vals) \<Rightarrow> Inr (key # attrs, col # vals))))"

text \<open>
  A small vocabulary for evaluating the encoder on concrete bundles: it knows the twelve
  token fields of the annotation bundle, and its two stores hold a fixed table of strings,
  the id of a string being its position in the table (and the length of the table for
  every other string).
\<close>

definition table_add :: "string list \<Rightarrow> string \<Rightarrow> 64 word" where
  "table_add table s = of_nat (case index_of table s of Some n \<Rightarrow> n | None \<Rightarrow> length table)"

definition table_get :: "string list \<Rightarrow> 64 word \<Rightarrow> string" where
  "table_get table w = (if unat w < length table then table ! unat w else [])"

definition small_table :: "string list" where
  "small_table = [[], ''N'', ''V'', ''a'', ''b'', ''nsubj'', ''ROOT'', ''NOUN'', ''VERB'']"

definition small_vocab :: vocab where
  "small_vocab =
     \<lparr>IDS = [''ORTH'', ''SPACY'', ''TAG'', ''POS'', ''LEMMA'', ''DEP'', ''HEAD'', ''MORPH'',
             ''SENT_START'', ''ENT_IOB'', ''ENT_TYPE'', ''ENT_KB_ID''],
      strings_add = table_add small_table,
      strings_get = table_get small_table,
      morphology_add = table_add small_table,
      morphology_get = table_get small_table,
      iob_strings = [[], ''I'', ''O'', ''B'']\<rparr>"

section \<open>Documents, alignments and Examples\<close>

text \<open>
  A token as the two files read it: \<open>orth\<close>, its text (\<^verbatim>\<open>text\<close>, \<^verbatim>\<open>orth_\<close>), its trailing
  whitespace flag, the string attributes exported by \<^verbatim>\<open>to_dict\<close> (\<^verbatim>\<open>tag_\<close>, \<^verbatim>\<open>lemma_\<close>,
  \<^verbatim>\<open>pos_\<close>, \<^verbatim>\<open>morph_\<close>, \<^verbatim>\<open>dep_\<close>), the index \<^verbatim>\<open>head.i\<close> of its head,
  \<^verbatim>\<open>is_sent_start\<close> (\<^verbatim>\<open>None\<close>, \<^verbatim>\<open>False\<close> or \<^verbatim>\<open>True\<close>), \<^verbatim>\<open>ent_iob\<close> (0 for a missing
  annotation, 1 inside, 2 outside, 3 begin), and \<open>attr\<close>, the value \<^verbatim>\<open>Doc.to_array\<close>
  reports for each attribute name.
\<close>

record token =
  orth :: string
  whitespace :: bool
  tag_str :: string
  lemma_str :: string
  pos_str :: string
  morph_str :: string
  head_i :: nat
  dep_str :: string
  is_sent_start :: "bool option"
  ent_iob :: nat
  attr :: "string \<Rightarrow> 64 word"

text \<open>
  An entity span of a document, with the \<^verbatim>\<open>Span\<close> attributes that the two files read:
  the token range \<^verbatim>\<open>start\<close>, \<^verbatim>\<open>end\<close> (exclusive), the character range \<^verbatim>\<open>start_char\<close>,
  \<^verbatim>\<open>end_char\<close>, the covered text, the label and the kb-id.
\<close>

record span =
  span_start :: nat
  span_end :: nat
  start_char :: nat
  end_char :: nat
  span_text :: string
  label :: string
  kb_id :: string

text \<open>
  A document: its tokens, and the values of the \<^verbatim>\<open>Doc\<close> properties that the two files
  read but do not compute: \<^verbatim>\<open>is_sentenced\<close>, \<^verbatim>\<open>sents\<close> (token ranges, end exclusive),
  \<^verbatim>\<open>ents\<close> and \<^verbatim>\<open>cats\<close>.
\<close>

record doc =
  tokens :: "token list"
  is_sentenced :: bool
  sents :: "(nat \<times> nat) list"
  ents :: "span list"
  cats :: "(string \<times> real) list"

text \<open>\<^verbatim>\<open>doc.to_array([field])\<close>: one value per token.\<close>

definition to_array :: "doc \<Rightarrow> string \<Rightarrow> 64 word list" where
  "to_array d field = map (\<lambda>t. attr t field) (tokens d)"

text \<open>
  The four tables of an \<^verbatim>\<open>Alignment\<close>; the two multi-maps are dicts, \<^verbatim>\<open>None\<close> in the
  two lists marks a token without a one-to-one partner.
\<close>

record alignment =
  cand_to_gold :: "nat option list"
  gold_to_cand :: "nat option list"
  i2j_multi :: "(nat \<times> nat) list"
  j2i_multi :: "(nat \<times> nat) list"

text \<open>An \<^verbatim>\<open>Example\<close>: the predicted document \<^verbatim>\<open>x\<close>, the reference document \<^verbatim>\<open>y\<close> and
  the cached \<^verbatim>\<open>_alignment\<close>.\<close>

record example =
  predicted :: doc
  reference :: doc
  cached_alignment :: "alignment option"

text \<open>
  The \<^verbatim>\<open>alignment\<close> property of \<^verbatim>\<open>Example\<close> in \<^verbatim>\<open>src/unnamed/part_000\<close>. The
  \<^verbatim>\<open>Alignment\<close> constructor is a parameter; the property returns the alignment and the
  Example with its cache filled.
\<close>

definition alignment_property ::
  "(string list \<Rightarrow> string list \<Rightarrow> py_error + alignment) \<Rightarrow> example
     \<Rightarrow> py_error + (alignment \<times> example)" where
  "alignment_property Alignment e =
     (case cached_alignment e of
        None \<Rightarrow>
          (let spacy_words = map orth (tokens (predicted e));
               gold_words = map orth (tokens (reference e));
               gold_words = (if gold_words = [] then spacy_words else gold_words)
           in case Alignment spacy_words gold_words of
                Inl err \<Rightarrow> Inl err
              | Inr a \<Rightarrow> Inr (a, e\<lparr>cached_alignment := Some a\<rparr>))
      | Some a \<Rightarrow> Inr (a, e))"

text \<open>
  \<^verbatim>\<open>str.isspace()\<close>. A string is the UTF-8 encoding of the Python text, so the test
  reads the bytes one code point at a time. The whitespace code points are U+0009 to
  U+000D, U+001C to U+0020, U+0085, U+00A0, U+1680, U+2000 to U+200A, U+2028, U+2029,
  U+202F, U+205F and U+3000. The scanner state says which bytes of a longer encoding have
  been read; \<open>Boundary\<close> is the state between two code points.
\<close>

datatype scan = Boundary | After_C2 | After_E1 | After_E1_9A | After_E2 | After_E2_80
  | After_E2_81 | After_E3 | After_E3_80 | No_space

fun space_step :: "scan \<Rightarrow> nat \<Rightarrow> scan" where
  "space_step Boundary b =
     (if (9 \<le> b \<and> b \<le> 13) \<or> (28 \<le> b \<and> b \<le> 32) then Boundary
      else if b = 194 then After_C2
      else if b = 225 then After_E1
      else if b = 226 then After_E2
      else if b = 227 then After_E3
      else No_space)"
| "space_step After_C2 b = (if b = 133 \<or> b = 160 then Boundary else No_space)"
| "space_step After_E1 b = (if b = 154 then After_E1_9A else No_space)"
| "space_step After_E1_9A b = (if b = 128 then Boundary else No_space)"
| "space_step After_E2 b =
     (if b = 128 then After_E2_80 else if b = 129 then After_E2_81 else No_space)"
| "space_step After_E2_80 b =
     (if (128 \<le> b \<and> b \<le> 138) \<or> b = 168 \<or> b = 169 \<or> b = 175 then Boundary else No_space)"
| "space_step After_E2_81 b = (if b = 159 then Boundary else No_space)"
| "space_step After_E3 b = (if b = 128 then After_E3_80 else No_space)"
| "space_step After_E3_80 b = (if b = 128 then Boundary else No_space)"
| "space_step No_space b = No_space"

definition isspace :: "string \<Rightarrow> bool" where
  "isspace s = (s \<noteq> [] \<and> foldl space_step Boundary (map of_char s) = Boundary)"

text \<open>Reading a list or an array at an index, \<^verbatim>\<open>IndexError\<close> out of range.\<close>

definition getitem :: "'a list \<Rightarrow> nat \<Rightarrow> py_error + 'a" where
  "getitem xs i = (if i < length xs then Inr (xs ! i) else Inl IndexError)"

text \<open>
  \<^verbatim>\<open>Example.get_aligned(field)\<close> of \<^verbatim>\<open>src/unnamed/part_000\<close> with \<^verbatim>\<open>as_string=False\<close>,
  after the alignment has been read: the loop over \<^verbatim>\<open>enumerate(cand_to_gold)\<close>. The
  whitespace test is an \<^verbatim>\<open>if\<close> of its own, followed by a second \<^verbatim>\<open>if\<close>/\<^verbatim>\<open>else\<close> that
  assigns \<^verbatim>\<open>output[i]\<close> in each of its branches.
\<close>

fun get_aligned_loop ::
  "token list \<Rightarrow> (nat \<times> nat) list \<Rightarrow> 64 word list \<Rightarrow> 64 word option list \<Rightarrow> nat
     \<Rightarrow> nat option list \<Rightarrow> py_error + 64 word option list" where
  "get_aligned_loop px i2j gold_values output i [] = Inr output"
| "get_aligned_loop px i2j gold_values output i (gold_i # rest) =
     (if i \<ge> length px then Inl IndexError
      else
        (let output = (if isspace (orth (px ! i)) then output[i := None] else output)
         in case (case gold_i of
                    None \<Rightarrow> (case map_of i2j i of
                                Some j \<Rightarrow> map_sum id Some (getitem gold_values j)
                              | None \<Rightarrow> Inr None)
                  | Some j \<Rightarrow> map_sum id Some (getitem gold_values j)) of
              Inl err \<Rightarrow> Inl err
            | Inr v \<Rightarrow> get_aligned_loop px i2j gold_values (output[i := v]) (Suc i) rest))"

definition get_aligned :: "alignment \<Rightarrow> example \<Rightarrow> string \<Rightarrow> py_error + 64 word option list" where
  "get_aligned a e field =
     get_aligned_loop (tokens (predicted e)) (i2j_multi a) (to_array (reference e) field)
       (replicate (length (tokens (predicted e))) None) 0 (cand_to_gold a)"

text \<open>
  \<^verbatim>\<open>NewExample.get_aligned(field)\<close> of \<^verbatim>\<open>src/spacy/gold/new_example.pyx\<close>: the output is
  built by \<^verbatim>\<open>append\<close>, and the whitespace test is the first branch of one
  \<^verbatim>\<open>if\<close>/\<^verbatim>\<open>elif\<close>/\<^verbatim>\<open>else\<close> chain.
\<close>

fun get_aligned_new_loop ::
  "token list \<Rightarrow> (nat \<times> nat) list \<Rightarrow> 64 word list \<Rightarrow> nat
     \<Rightarrow> nat option list \<Rightarrow> py_error + 64 word option list" where
  "get_aligned_new_loop px i2j gold_values i [] = Inr []"
| "get_aligned_new_loop px i2j gold_values i (gold_i # rest) =
     (if i \<ge> length px then Inl IndexError
      else case (if isspace (orth (px ! i)) then Inr None
                 else case gold_i of
                    None \<Rightarrow> (case map_of i2j i of
                                Some j \<Rightarrow> map_sum id Some (getitem gold_values j)
                              | None \<Rightarrow> Inr None)
                  | Some j \<Rightarrow> map_sum id Some (getitem gold_values j)) of
             Inl err \<Rightarrow> Inl err
           | Inr v \<Rightarrow>
               (case get_aligned_new_loop px i2j gold_values (Suc i) rest of
                  Inl err \<Rightarrow> Inl err
                | Inr out \<Rightarrow> Inr (v # out)))"

definition get_aligned_new :: "alignment \<Rightarrow> example \<Rightarrow> string \<Rightarrow> py_error + 64 word option list" where
  "get_aligned_new a e field =
     get_aligned_new_loop (tokens (predicted e)) (i2j_multi a) (to_array (reference e) field) 0 (cand_to_gold a)"

text \<open>
  Concrete documents for evaluating the operations: \<open>mk_token w v\<close> is a token with text
  \<open>w\<close>, followed by a space, whose every attribute has the value \<open>v\<close>, with no sentence or
  entity annotation; \<open>mk_doc ts\<close> is a document of the tokens \<open>ts\<close> that is one sentence
  and has no entities and no categories.
\<close>

definition mk_token :: "string \<Rightarrow> 64 word \<Rightarrow> token" where
  "mk_token w v =
     \<lparr>orth = w, whitespace = True, tag_str = [], lemma_str = [], pos_str = [], morph_str = [],
      head_i = 0, dep_str = [], is_sent_start = None, ent_iob = 0, attr = (\<lambda>_. v)\<rparr>"

definition mk_doc :: "token list \<Rightarrow> doc" where
  "mk_doc ts =
     \<lparr>tokens = ts, is_sentenced = True, sents = [(0, length ts)], ents = [], cats = []\<rparr>"

text \<open>
  A stand-in for the \<^verbatim>\<open>Alignment\<close> constructor on concrete inputs: it aligns two equal
  word lists token by token and refuses any other pair.
\<close>

definition one_to_one :: "string list \<Rightarrow> string list \<Rightarrow> py_error + alignment" where
  "one_to_one spacy_words gold_words =
     (if spacy_words = gold_words
      then Inr \<lparr>cand_to_gold = map Some [0..<length spacy_words],
                gold_to_cand = map Some [0..<length gold_words],
                i2j_multi = [], j2i_multi = []\<rparr>
      else Inl AlignmentError)"

section \<open>Splitting into sentences: \<^verbatim>\<open>split_sents\<close>\<close>

text \<open>\<^verbatim>\<open>xs.index(v, start)\<close>: the first position at or after \<open>start\<close> that holds \<open>v\<close>.\<close>

definition index_from :: "'a list \<Rightarrow> 'a \<Rightarrow> nat \<Rightarrow> nat option" where
  "index_from xs v start = map_option (\<lambda>n. start + n) (index_of (drop start xs) v)"

text \<open>\<^verbatim>\<open>doc[a:b]\<close> for \<open>a \<le> b\<close>: the tokens from \<open>a\<close> up to, not including, \<open>b\<close>.\<close>

definition slice :: "'a list \<Rightarrow> nat \<Rightarrow> nat \<Rightarrow> 'a list" where
  "slice xs a b = take (b - a) (drop a xs)"

text \<open>
  The loop of \<^verbatim>\<open>Example.split_sents\<close> in \<^verbatim>\<open>src/unnamed/part_000\<close> over the reference
  sentences. A sub-Example is given by the tokens of its two documents,
  \<^verbatim>\<open>self.predicted[pred_start : pred_end].as_doc()\<close> and \<^verbatim>\<open>sent.as_doc()\<close>.
\<close>

fun split_loop ::
  "64 word option list \<Rightarrow> token list \<Rightarrow> token list \<Rightarrow> nat \<Rightarrow> (nat \<times> nat) list
     \<Rightarrow> py_error + (token list \<times> token list) list" where
  "split_loop sent_starts px py pred_start [] = Inr []"
| "split_loop sent_starts px py pred_start (sent # rest) =
     (case index_from sent_starts (Some 1) (pred_start + 1) of
        None \<Rightarrow> Inl NotFoundError
      | Some pred_end \<Rightarrow>
          (case split_loop sent_starts px py pred_end rest of
             Inl err \<Rightarrow> Inl err
           | Inr output \<Rightarrow>
               Inr ((slice px pred_start pred_end, slice py (fst sent) (snd sent)) # output)))"

text \<open>
  \<^verbatim>\<open>Example.split_sents\<close> of \<^verbatim>\<open>src/unnamed/part_000\<close>, given the alignment. Without
  sentence boundaries the result is the Example itself.
\<close>

definition split_sents ::
  "alignment \<Rightarrow> example \<Rightarrow> py_error + (token list \<times> token list) list" where
  "split_sents a e =
     (if \<not> is_sentenced (reference e)
      then Inr [(tokens (predicted e), tokens (reference e))]
      else (case get_aligned a e ''SENT_START'' of
              Inl err \<Rightarrow> Inl err
            | Inr sent_starts \<Rightarrow>
                split_loop (sent_starts @ [Some 1]) (tokens (predicted e)) (tokens (reference e))
                  0 (sents (reference e))))"

text \<open>
  The number of entries equal to 1 in the aligned \<^verbatim>\<open>SENT_START\<close> column after position
  \<open>start\<close>.
\<close>

definition markers_after :: "64 word option list \<Rightarrow> nat \<Rightarrow> nat" where
  "markers_after sent_starts start =
     length (filter (\<lambda>v. v = Some 1) (drop (Suc start) sent_starts))"

text \<open>
  \<^verbatim>\<open>NewExample.split_sents\<close> of \<^verbatim>\<open>src/spacy/gold/new_example.pyx\<close>: it refuses documents
  whose words differ, and cuts the predicted document at
  \<^verbatim>\<open>self.predicted[sent.start : sent.end + 1]\<close> (a slice ends at the end of the document
  at the latest).
\<close>

definition split_sents_new :: "example \<Rightarrow> py_error + (token list \<times> token list) list" where
  "split_sents_new e =
     (if \<not> is_sentenced (reference e)
      then Inr [(tokens (predicted e), tokens (reference e))]
      else if map orth (tokens (predicted e)) \<noteq> map orth (tokens (reference e))
      then Inl NotImplementedError
      else Inr (map (\<lambda>sent. (slice (tokens (predicted e)) (fst sent) (snd sent + 1),
                               slice (tokens (reference e)) (fst sent) (snd sent)))
                    (sents (reference e))))"

section \<open>Normalising a bundle: \<^verbatim>\<open>_fix_legacy_dict_data\<close>\<close>

text \<open>
  The values of an annotation bundle before encoding. A dict with string keys is an
  association list in insertion order; the \<^verbatim>\<open>links\<close> dict, keyed by pairs of offsets, has
  a constructor of its own.
\<close>

datatype pyval =
    PNone
  | PBool bool
  | PInt int
  | PFloat real
  | PStr string
  | PList "pyval list"
  | PTuple "pyval list"
  | PDict "(string \<times> pyval) list"
  | PLinks "link list"

text \<open>The truth value of \<^verbatim>\<open>if value:\<close>.\<close>

fun py_truthy :: "pyval \<Rightarrow> bool" where
  "py_truthy PNone = False"
| "py_truthy (PBool b) = b"
| "py_truthy (PInt i) = (i \<noteq> 0)"
| "py_truthy (PFloat r) = (r \<noteq> 0)"
| "py_truthy (PStr s) = (s \<noteq> [])"
| "py_truthy (PList vs) = (vs \<noteq> [])"
| "py_truthy (PTuple vs) = (vs \<noteq> [])"
| "py_truthy (PDict kvs) = (kvs \<noteq> [])"
| "py_truthy (PLinks ls) = (ls \<noteq> [])"

text \<open>\<^verbatim>\<open>d[key] = value\<close> with a string key, and \<^verbatim>\<open>d.items()\<close>, on a value that may be no dict.\<close>

fun setitem :: "pyval \<Rightarrow> string \<Rightarrow> pyval \<Rightarrow> py_error + pyval" where
  "setitem (PDict kvs) key v = Inr (PDict (dict_set kvs key v))"
| "setitem _ key v = Inl TypeError"

fun dict_items :: "pyval \<Rightarrow> py_error + (string \<times> pyval) list" where
  "dict_items (PDict kvs) = Inr kvs"
| "dict_items _ = Inl AttributeError"

text \<open>
  The body of the first loop of \<^verbatim>\<open>_fix_legacy_dict_data\<close> in
  \<^verbatim>\<open>src/unnamed/part_000\<close> for one item of \<^verbatim>\<open>example_dict\<close>: every branch is under
  \<^verbatim>\<open>if value:\<close>.
\<close>

definition hoist_item :: "pyval \<Rightarrow> pyval \<Rightarrow> string \<Rightarrow> pyval \<Rightarrow> py_error + (pyval \<times> pyval)" where
  "hoist_item token_dict doc_dict key v =
     (if py_truthy v then
        (if key \<in> {''token_annotation'', ''doc_annotation''} then Inr (token_dict, doc_dict)
         else if key = ''ids'' then Inr (token_dict, doc_dict)
         else if key \<in> {''cats'', ''links''} then
           map_sum id (\<lambda>doc_dict'. (token_dict, doc_dict')) (setitem doc_dict key v)
         else if key \<in> {''ner'', ''entities''} then
           map_sum id (\<lambda>doc_dict'. (token_dict, doc_dict')) (setitem doc_dict ''entities'' v)
         else map_sum id (\<lambda>token_dict'. (token_dict', doc_dict)) (setitem token_dict key v))
      else Inr (token_dict, doc_dict))"

fun hoist :: "pyval \<Rightarrow> pyval \<Rightarrow> (string \<times> pyval) list \<Rightarrow> py_error + (pyval \<times> pyval)" where
  "hoist token_dict doc_dict [] = Inr (token_dict, doc_dict)"
| "hoist token_dict doc_dict ((key, v) # rest) =
     (case hoist_item token_dict doc_dict key v of
        Inl err \<Rightarrow> Inl err
      | Inr (token_dict', doc_dict') \<Rightarrow> hoist token_dict' doc_dict' rest)"

definition remapping :: "(string \<times> string) list" where
  "remapping =
     [(''words'', ''ORTH''), (''tags'', ''TAG''), (''pos'', ''POS''), (''lemmas'', ''LEMMA''),
      (''deps'', ''DEP''), (''heads'', ''HEAD''), (''sent_starts'', ''SENT_START''),
      (''morphs'', ''MORPH''), (''spaces'', ''SPACY'')]"

text \<open>
  A top-level key that the first loop, when its value is truthy, copies into the token
  dict.
\<close>

definition token_level_key :: "string \<Rightarrow> bool" where
  "token_level_key key =
     (key \<notin> {''token_annotation'', ''doc_annotation'', ''ids'', ''cats'', ''links'', ''ner'',
              ''entities''})"

text \<open>The second loop: remap the keys of the old token dict into a new one.\<close>

fun remap_loop ::
  "(string \<times> pyval) list \<Rightarrow> (string \<times> pyval) list \<Rightarrow> py_error + (string \<times> pyval) list" where
  "remap_loop token_dict [] = Inr token_dict"
| "remap_loop token_dict ((key, v) # rest) =
     (if key \<in> {''text'', ''ids'', ''brackets''} then remap_loop token_dict rest
      else (case map_of remapping key of
              Some key' \<Rightarrow> remap_loop (dict_set token_dict key' v) rest
            | None \<Rightarrow> Inl (UnknownKeyError key)))"

text \<open>\<^verbatim>\<open>len(v)\<close>, and \<^verbatim>\<open>all([value is None for value in v])\<close> for a value that has a length.\<close>

fun py_len :: "pyval \<Rightarrow> py_error + nat" where
  "py_len (PStr s) = Inr (length s)"
| "py_len (PList vs) = Inr (length vs)"
| "py_len (PTuple vs) = Inr (length vs)"
| "py_len (PDict kvs) = Inr (length kvs)"
| "py_len (PLinks ls) = Inr (length ls)"
| "py_len _ = Inl TypeError"

fun all_none :: "pyval \<Rightarrow> bool" where
  "all_none (PList vs) = list_all (\<lambda>v. v = PNone) vs"
| "all_none (PTuple vs) = list_all (\<lambda>v. v = PNone) vs"
| "all_none (PStr s) = (s = [])"
| "all_none (PDict kvs) = (kvs = [])"
| "all_none (PLinks ls) = (ls = [])"
| "all_none _ = False"

text \<open>\<^verbatim>\<open>_has_field(annot, field)\<close>\<close>

definition has_field :: "(string \<times> pyval) list \<Rightarrow> string \<Rightarrow> py_error + bool" where
  "has_field annot field =
     (case map_of annot field of
        None \<Rightarrow> Inr False
      | Some PNone \<Rightarrow> Inr False
      | Some v \<Rightarrow>
          (case py_len v of
             Inl err \<Rightarrow> Inl err
           | Inr n \<Rightarrow> Inr (if n = 0 then False else if all_none v then False else True)))"

text \<open>\<^verbatim>\<open>s.index(word)\<close>: the first position at which \<open>word\<close> occurs in \<open>s\<close>.\<close>

fun str_index :: "string \<Rightarrow> string \<Rightarrow> nat option" where
  "str_index [] word = (if word = [] then Some 0 else None)"
| "str_index (c # cs) word =
     (if take (length word) (c # cs) = word then Some 0
      else map_option Suc (str_index cs word))"

text \<open>\<^verbatim>\<open>_guess_spaces(text, words)\<close>, with the cursor \<^verbatim>\<open>text_pos\<close> as an argument.\<close>

fun guess_spaces :: "string \<Rightarrow> nat \<Rightarrow> string list \<Rightarrow> bool list" where
  "guess_spaces txt text_pos [] = []"
| "guess_spaces txt text_pos (word # ws) =
     (case str_index (drop text_pos txt) word of
        None \<Rightarrow> True # guess_spaces txt text_pos ws
      | Some word_start \<Rightarrow>
          (let text_pos = text_pos + word_start + length word
           in (text_pos < length txt \<and> txt ! text_pos = CHR '' '')
              # guess_spaces txt text_pos ws))"

text \<open>
  The call \<^verbatim>\<open>_guess_spaces(text, token_dict["ORTH"])\<close> on bundle values: the text must be a
  string and the words a list of strings; any other value is a \<open>TypeError\<close>.
\<close>

fun the_strs :: "pyval list \<Rightarrow> string list option" where
  "the_strs [] = Some []"
| "the_strs (PStr s # vs) = map_option (\<lambda>ss. s # ss) (the_strs vs)"
| "the_strs (_ # vs) = None"

definition guess_spaces_val :: "pyval \<Rightarrow> pyval \<Rightarrow> py_error + pyval" where
  "guess_spaces_val txt ws =
     (case (txt, ws) of
        (PStr t, PList vs) \<Rightarrow>
          (case the_strs vs of
             Some ss \<Rightarrow> Inr (PList (map PBool (guess_spaces t 0 ss)))
           | None \<Rightarrow> Inl TypeError)
      | _ \<Rightarrow> Inl TypeError)"

text \<open>\<^verbatim>\<open>d.pop(key)\<close> for a key that is present.\<close>

definition dict_pop :: "('k \<times> 'v) list \<Rightarrow> 'k \<Rightarrow> ('k \<times> 'v) list" where
  "dict_pop kvs key = filter (\<lambda>kv. fst kv \<noteq> key) kvs"

text \<open>
  \<^verbatim>\<open>_fix_legacy_dict_data(example_dict)\<close> of \<^verbatim>\<open>src/unnamed/part_000\<close>; the result is the
  pair of \<^verbatim>\<open>token_annotation\<close> and \<^verbatim>\<open>doc_annotation\<close>.
\<close>

definition fix_legacy_dict_data ::
  "(string \<times> pyval) list \<Rightarrow> py_error + ((string \<times> pyval) list \<times> pyval)" where
  "fix_legacy_dict_data example_dict =
     (let token_dict = (case map_of example_dict ''token_annotation'' of
                          None \<Rightarrow> PDict [] | Some v \<Rightarrow> v);
          doc_dict = (case map_of example_dict ''doc_annotation'' of
                        None \<Rightarrow> PDict [] | Some v \<Rightarrow> v)
      in case hoist token_dict doc_dict example_dict of
           Inl err \<Rightarrow> Inl err
         | Inr (old_token_dict, doc_dict) \<Rightarrow>
             (case dict_items old_token_dict of
                Inl err \<Rightarrow> Inl err
              | Inr old_items \<Rightarrow>
                  (case remap_loop [] old_items of
                     Inl err \<Rightarrow> Inl err
                   | Inr token_dict \<Rightarrow>
                       (let txt = (case map_of example_dict ''text'' of
                                     Some t \<Rightarrow> t
                                   | None \<Rightarrow> (case map_of example_dict ''raw'' of
                                                Some t \<Rightarrow> t | None \<Rightarrow> PNone))
                        in case (if py_truthy txt
                                 then (case has_field token_dict ''SPACY'' of
                                         Inl err \<Rightarrow> Inl err
                                       | Inr True \<Rightarrow> Inr token_dict
                                       | Inr False \<Rightarrow>
                                           (case map_of token_dict ''ORTH'' of
                                              None \<Rightarrow> Inl (KeyError ''ORTH'')
                                            | Some ws \<Rightarrow>
                                                (case guess_spaces_val txt ws of
                                                   Inl err \<Rightarrow> Inl err
                                                 | Inr sp \<Rightarrow>
                                                     Inr (dict_set token_dict ''SPACY'' sp))))
                                 else Inr token_dict) of
                             Inl err \<Rightarrow> Inl err
                           | Inr token_dict \<Rightarrow>
                               Inr (if ''HEAD'' \<in> fst ` set token_dict
                                       \<and> ''SENT_START'' \<in> fst ` set token_dict
                                    then dict_pop token_dict ''SENT_START'' else token_dict,
                                    doc_dict)))))"

text \<open>
  An unknown top-level key: the first loop copies it into the token dict, and the second
  loop neither skips nor remaps it.
\<close>

definition unknown_key :: "string \<Rightarrow> bool" where
  "unknown_key key =
     (token_level_key key \<and> key \<notin> {''text'', ''ids'', ''brackets''}
      \<and> map_of remapping key = None)"

section \<open>Exporting: \<^verbatim>\<open>to_dict\<close>\<close>

text \<open>\<^verbatim>\<open>doc.text\<close>: the token texts, each followed by its trailing whitespace.\<close>

definition doc_text :: "doc \<Rightarrow> string" where
  "doc_text d = concat (map (\<lambda>t. orth t @ (if whitespace t then '' '' else [])) (tokens d))"




section \<open>Projecting entities: \<^verbatim>\<open>get_aligned_ner\<close>\<close>

text \<open>
  The collaborators of \<^verbatim>\<open>get_aligned_ner\<close> that live outside the two files: the
  \<^verbatim>\<open>Span\<close> constructor \<^verbatim>\<open>Span(doc, start, end, label=...)\<close>, \<^verbatim>\<open>Doc.char_span\<close>, which
  yields \<^verbatim>\<open>None\<close> when the characters are no token range, and
  \<^verbatim>\<open>biluo_tags_from_offsets(doc, entities, missing="O")\<close>. They are parameters.
\<close>

record ner_collab =
  new_span :: "doc \<Rightarrow> nat \<Rightarrow> nat \<Rightarrow> string \<Rightarrow> py_error + span"
  char_span :: "doc \<Rightarrow> nat \<Rightarrow> nat \<Rightarrow> string \<Rightarrow> span option"
  biluo_tags_from_offsets :: "doc \<Rightarrow> (nat \<times> nat \<times> string) list \<Rightarrow> py_error + string list"

text \<open>
  \<^verbatim>\<open>s.count(sub)\<close>: the number of non-overlapping occurrences of \<open>sub\<close> in \<open>s\<close>, from
  left to right; the empty string occurs once more than \<open>s\<close> has characters.
\<close>

fun count_from :: "string \<Rightarrow> string \<Rightarrow> nat" where
  "count_from [] sub = 0"
| "count_from (c # cs) sub =
     (if take (length sub) (c # cs) = sub
      then Suc (count_from (drop (length sub - 1) cs) sub)
      else count_from cs sub)"

definition str_count :: "string \<Rightarrow> string \<Rightarrow> nat" where
  "str_count s sub = (if sub = [] then length s + 1 else count_from s sub)"

text \<open>Reading a list at a Python integer index: a negative index counts from the end.\<close>

definition getitem_int :: "'a list \<Rightarrow> int \<Rightarrow> py_error + 'a" where
  "getitem_int xs i =
     (if 0 \<le> i then getitem xs (nat i)
      else if - i \<le> int (length xs) then Inr (xs ! (length xs - nat (- i)))
      else Inl IndexError)"

text \<open>
  The first loop of \<^verbatim>\<open>Example.get_aligned_ner\<close> in \<^verbatim>\<open>src/unnamed/part_000\<close>, over the
  reference entities: the predicted-frame entity of one reference entity, if any.
\<close>

definition align_ent ::
  "ner_collab \<Rightarrow> nat option list \<Rightarrow> doc \<Rightarrow> span \<Rightarrow> py_error + span option" where
  "align_ent c g2c xd y_ent =
     (case getitem g2c (span_start y_ent) of
        Inl err \<Rightarrow> Inl err
      | Inr x_start \<Rightarrow>
          (case getitem_int g2c (int (span_end y_ent) - 1) of
             Inl err \<Rightarrow> Inl err
           | Inr x_end \<Rightarrow>
               (case (x_start, x_end) of
                  (Some s, Some e) \<Rightarrow> map_sum id Some (new_span c xd s (e + 1) (label y_ent))
                | _ \<Rightarrow>
                    (if str_count (doc_text xd) (span_text y_ent) = 1
                     then (case str_index (doc_text xd) (span_text y_ent) of
                             None \<Rightarrow> Inl NotFoundError
                           | Some sc \<Rightarrow>
                               Inr (char_span c xd sc (sc + length (span_text y_ent))
                                      (label y_ent)))
                     else Inr None))))"

fun align_ents ::
  "ner_collab \<Rightarrow> nat option list \<Rightarrow> doc \<Rightarrow> span list \<Rightarrow> py_error + span list" where
  "align_ents c g2c xd [] = Inr []"
| "align_ents c g2c xd (y_ent # rest) =
     (case align_ent c g2c xd y_ent of
        Inl err \<Rightarrow> Inl err
      | Inr r \<Rightarrow>
          (case align_ents c g2c xd rest of
             Inl err \<Rightarrow> Inl err
           | Inr x_ents \<Rightarrow> Inr (case r of None \<Rightarrow> x_ents | Some x_ent \<Rightarrow> x_ent # x_ents)))"

text \<open>
  The last loop, over the reference tokens (\<open>i\<close> is \<^verbatim>\<open>token.i\<close>): a token whose
  \<^verbatim>\<open>ent_iob\<close> is 0 sets the tag of its predicted partner to \<^verbatim>\<open>None\<close>.
\<close>

fun mark_unknown ::
  "nat option list \<Rightarrow> string option list \<Rightarrow> nat \<Rightarrow> token list \<Rightarrow> py_error + string option list" where
  "mark_unknown g2c x_tags i [] = Inr x_tags"
| "mark_unknown g2c x_tags i (t # ts) =
     (if ent_iob t = 0 then
        (case getitem g2c i of
           Inl err \<Rightarrow> Inl err
         | Inr None \<Rightarrow> mark_unknown g2c x_tags (Suc i) ts
         | Inr (Some cand_i) \<Rightarrow>
             (if cand_i < length x_tags
              then mark_unknown g2c (x_tags[cand_i := None]) (Suc i) ts
              else Inl IndexError))
      else mark_unknown g2c x_tags (Suc i) ts)"

text \<open>\<^verbatim>\<open>Example.get_aligned_ner()\<close> of \<^verbatim>\<open>src/unnamed/part_000\<close>, given the alignment.\<close>

definition get_aligned_ner ::
  "ner_collab \<Rightarrow> alignment \<Rightarrow> example \<Rightarrow> py_error + string option list" where
  "get_aligned_ner c a e =
     (case align_ents c (gold_to_cand a) (predicted e) (ents (reference e)) of
        Inl err \<Rightarrow> Inl err
      | Inr x_ents \<Rightarrow>
          (case biluo_tags_from_offsets c (predicted e)
                  (map (\<lambda>x_ent. (start_char x_ent, end_char x_ent, label x_ent)) x_ents) of
             Inl err \<Rightarrow> Inl err
           | Inr x_tags \<Rightarrow>
               mark_unknown (gold_to_cand a) (map Some x_tags) 0 (tokens (reference e))))"

text \<open>
  Modelled from the spec: the collaborators for concrete documents. The character offset
  of a token is derived from the texts and trailing spaces before it; a span over a token
  range takes its characters from its first and last token; \<^verbatim>\<open>char_span\<close> yields a span
  when the characters start and end at token boundaries; the tag conversion gives a
  single-token entity the tag \<^verbatim>\<open>U-\<close>label, a longer one \<^verbatim>\<open>B-\<close>, \<^verbatim>\<open>I-\<close>, \<^verbatim>\<open>L-\<close>, and every
  other token the default \<^verbatim>\<open>O\<close> ("outside").
\<close>

fun doc_idxs :: "nat \<Rightarrow> token list \<Rightarrow> nat list" where
  "doc_idxs p [] = []"
| "doc_idxs p (t # ts) =
     p # doc_idxs (p + length (orth t) + (if whitespace t then 1 else 0)) ts"

definition token_start_char :: "doc \<Rightarrow> nat \<Rightarrow> nat" where
  "token_start_char d i = doc_idxs 0 (tokens d) ! i"

definition token_end_char :: "doc \<Rightarrow> nat \<Rightarrow> nat" where
  "token_end_char d i = doc_idxs 0 (tokens d) ! i + length (orth (tokens d ! i))"

definition plain_span :: "doc \<Rightarrow> nat \<Rightarrow> nat \<Rightarrow> string \<Rightarrow> py_error + span" where
  "plain_span d s e lab =
     (if s < e \<and> e \<le> length (tokens d)
      then Inr \<lparr>span_start = s, span_end = e, start_char = token_start_char d s,
               end_char = token_end_char d (e - 1),
               span_text = take (token_end_char d (e - 1) - token_start_char d s)
                             (drop (token_start_char d s) (doc_text d)),
               label = lab, kb_id = []\<rparr>
      else Inl IndexError)"

definition plain_char_span :: "doc \<Rightarrow> nat \<Rightarrow> nat \<Rightarrow> string \<Rightarrow> span option" where
  "plain_char_span d sc ec lab =
     (case (index_of (doc_idxs 0 (tokens d)) sc,
            index_of (map (token_end_char d) [0..<length (tokens d)]) ec) of
        (Some s, Some e) \<Rightarrow>
          (case plain_span d s (e + 1) lab of Inr sp \<Rightarrow> Some sp | Inl _ \<Rightarrow> None)
      | _ \<Rightarrow> None)"

definition plain_tag :: "doc \<Rightarrow> (nat \<times> nat \<times> string) list \<Rightarrow> nat \<Rightarrow> string" where
  "plain_tag d entities i =
     (case filter (\<lambda>(sc, ec, lab). sc \<le> token_start_char d i \<and> token_end_char d i \<le> ec) entities of
        [] \<Rightarrow> ''O''
      | (sc, ec, lab) # _ \<Rightarrow>
          (if sc = token_start_char d i \<and> ec = token_end_char d i then ''U-'' @ lab
           else if sc = token_start_char d i then ''B-'' @ lab
           else if ec = token_end_char d i then ''L-'' @ lab
           else ''I-'' @ lab))"

definition plain_collab :: ner_collab where
  "plain_collab =
     \<lparr>new_span = plain_span, char_span = plain_char_span,
      biluo_tags_from_offsets =
        (\<lambda>d entities. Inr (map (plain_tag d entities) [0..<length (tokens d)]))\<rparr>"

text \<open>
  Predicted index \<open>c\<close> is the partner, under \<^verbatim>\<open>gold_to_cand\<close>, of one of the reference
  tokens \<open>ts\<close> (numbered from \<open>i\<close>) whose \<^verbatim>\<open>ent_iob\<close> is 0.
\<close>

definition marked :: "nat option list \<Rightarrow> nat \<Rightarrow> token list \<Rightarrow> nat \<Rightarrow> bool" where
  "marked g2c i ts c = (\<exists>k<length ts. ent_iob (ts ! k) = 0 \<and> g2c ! (i + k) = Some c)"

section \<open>Building the reference document: \<^verbatim>\<open>annotations2doc\<close> and \<^verbatim>\<open>from_dict\<close>\<close>










text \<open>
  Modelled from the spec: the \<^verbatim>\<open>Doc\<close> class, which is not in the two files. A document
  is a tokenization, each token with its text and trailing-whitespace flag, plus per-token
  attribute columns and the categories. \<^verbatim>\<open>Doc(vocab, words=..., spaces=...)\<close> makes one
  token per word, without annotation and each its own head; the two lists must have one
  length. Sentences start at the first token and at every token whose sentence-start flag
  is set.
\<close>

definition blank_token :: "nat \<Rightarrow> string \<Rightarrow> bool \<Rightarrow> token" where
  "blank_token i w s =
     \<lparr>orth = w, whitespace = s, tag_str = [], lemma_str = [], pos_str = [], morph_str = [],
      head_i = i, dep_str = [], is_sent_start = None, ent_iob = 0, attr = (\<lambda>_. 0)\<rparr>"

definition sentence_starts :: "token list \<Rightarrow> nat list" where
  "sentence_starts ts =
     (if ts = [] then []
      else 0 # filter (\<lambda>i. is_sent_start (ts ! i) = Some True) [1..<length ts])"

definition doc_of_tokens :: "token list \<Rightarrow> span list \<Rightarrow> (string \<times> real) list \<Rightarrow> doc" where
  "doc_of_tokens ts es cs =
     \<lparr>tokens = ts,
      is_sentenced = (length ts < 2 \<or> (\<exists>t \<in> set (tl ts). is_sent_start t \<noteq> None)),
      sents = zip (sentence_starts ts) (tl (sentence_starts ts) @ [length ts]),
      ents = es, cats = cs\<rparr>"

definition new_doc :: "string list \<Rightarrow> bool list \<Rightarrow> py_error + doc" where
  "new_doc ws spaces =
     (if length spaces \<noteq> length ws then Inl DocError
      else Inr (doc_of_tokens
                  (map (\<lambda>i. blank_token i (ws ! i) (spaces ! i)) [0..<length ws]) [] []))"






















section \<open>The encoder of \<^verbatim>\<open>new_example.pyx\<close>\<close>

text \<open>
  The collaborator of \<^verbatim>\<open>_parse_ner_tags\<close> that is not in the two files, added to those
  of \<^verbatim>\<open>get_aligned_ner\<close>: \<^verbatim>\<open>biluo_to_iob(tags)\<close>, over tags that may be \<^verbatim>\<open>None\<close>.
\<close>

record iob_collab = ner_collab +
  biluo_to_iob :: "string option list \<Rightarrow> py_error + string option list"

text \<open>
  \<^verbatim>\<open>iob_tag.split("-")[0]\<close>, and the entity type \<^verbatim>\<open>iob_tag.split("-", 1)[1]\<close> of a tag
  that starts with \<^verbatim>\<open>I\<close> or \<^verbatim>\<open>B\<close>, which does not exist when the tag has no hyphen.
\<close>

definition iob_of :: "string \<Rightarrow> string" where
  "iob_of iob_tag = takeWhile (\<lambda>ch. ch \<noteq> CHR ''-'') iob_tag"

definition ent_type_of :: "string \<Rightarrow> py_error + string" where
  "ent_type_of iob_tag =
     (if take 1 iob_tag = ''I'' \<or> take 1 iob_tag = ''B'' then
        (if CHR ''-'' \<in> set iob_tag
         then Inr (tl (dropWhile (\<lambda>ch. ch \<noteq> CHR ''-'') iob_tag))
         else Inl IndexError)
      else Inr [])"

text \<open>The loop of \<^verbatim>\<open>_parse_ner_tags\<close> over the IOB tags; a tag \<^verbatim>\<open>None\<close> has no \<^verbatim>\<open>split\<close>.\<close>

fun iob_columns :: "string option list \<Rightarrow> py_error + (string list \<times> string list)" where
  "iob_columns [] = Inr ([], [])"
| "iob_columns (None # rest) = Inl AttributeError"
| "iob_columns (Some iob_tag # rest) =
     (case ent_type_of iob_tag of
        Inl err \<Rightarrow> Inl err
      | Inr ent_type \<Rightarrow>
          (case iob_columns rest of
             Inl err \<Rightarrow> Inl err
           | Inr (ent_iobs, ent_types) \<Rightarrow> Inr (iob_of iob_tag # ent_iobs, ent_type # ent_types)))"

fun offsets_of :: "ent_item list \<Rightarrow> (nat \<times> nat \<times> string) list option" where
  "offsets_of [] = Some []"
| "offsets_of (EOffsets s e lab # ds) =
     (if 0 \<le> s \<and> 0 \<le> e
      then map_option (\<lambda>os. (nat s, nat e, lab) # os) (offsets_of ds) else None)"
| "offsets_of (_ # ds) = None"

fun tags_of :: "ent_item list \<Rightarrow> string option list option" where
  "tags_of [] = Some []"
| "tags_of (ETag t # ds) = map_option (\<lambda>ts. Some t # ts) (tags_of ds)"
| "tags_of (ENoTag # ds) = map_option (\<lambda>ts. None # ts) (tags_of ds)"
| "tags_of (_ # ds) = None"

text \<open>
  \<^verbatim>\<open>_parse_ner_tags(vocab, words, biluo_or_offsets)\<close> of
  \<^verbatim>\<open>src/spacy/gold/new_example.pyx\<close>. It reads the first entity, which an empty list
  does not have; offsets are converted on \<^verbatim>\<open>Doc(vocab, words=words)\<close>, every token of
  which is followed by a space. A list that mixes offsets and tags, or a value that is no
  list of entities, is a \<open>TypeError\<close>.
\<close>

definition parse_ner_tags ::
  "iob_collab \<Rightarrow> tok_value \<Rightarrow> doc_value \<Rightarrow> py_error + (string list \<times> string list)" where
  "parse_ner_tags c words biluo_or_offsets =
     (case biluo_or_offsets of
        Entities [] \<Rightarrow> Inl IndexError
      | Entities (d # ds) \<Rightarrow>
          (case (case d of
                   EOffsets _ _ _ \<Rightarrow>
                     (case (words, offsets_of (d # ds)) of
                        (TStrs ws, Some offsets) \<Rightarrow>
                          (case new_doc ws (replicate (length ws) True) of
                             Inl err \<Rightarrow> Inl err
                           | Inr ref_doc \<Rightarrow>
                               map_sum id (map Some) (biluo_tags_from_offsets c ref_doc offsets))
                      | _ \<Rightarrow> Inl TypeError)
                 | _ \<Rightarrow>
                     (case tags_of (d # ds) of
                        Some biluo \<Rightarrow> Inr biluo
                      | None \<Rightarrow> Inl TypeError)) of
             Inl err \<Rightarrow> Inl err
           | Inr biluo \<Rightarrow>
               (case biluo_to_iob c biluo of
                  Inl err \<Rightarrow> Inl err
                | Inr iob \<Rightarrow> iob_columns iob))
      | _ \<Rightarrow> Inl TypeError)"

text \<open>
  The first loop of \<^verbatim>\<open>_annot2array\<close> in \<^verbatim>\<open>src/spacy/gold/new_example.pyx\<close>, over the
  items of \<^verbatim>\<open>doc_annot\<close>. No branch is under \<^verbatim>\<open>if value:\<close>. The local variable
  \<^verbatim>\<open>words\<close> is bound by the \<^verbatim>\<open>entities\<close> branch only, and the \<^verbatim>\<open>links\<close> branch reads
  it after its own check; it is the fourth argument here.
\<close>

fun annot2array_doc_new ::
  "iob_collab \<Rightarrow> doc_annot \<Rightarrow> tok_annot \<Rightarrow> tok_value option \<Rightarrow> doc_annot
     \<Rightarrow> py_error + tok_annot" where
  "annot2array_doc_new c doc_annot tok_annot words [] = Inr tok_annot"
| "annot2array_doc_new c doc_annot tok_annot words ((key, v) # items) =
     (if key = ''entities'' then
        (case map_of tok_annot ''ORTH'' of
           None \<Rightarrow> Inl (KeyError ''ORTH'')
         | Some orth_words \<Rightarrow>
             (case parse_ner_tags c orth_words v of
                Inl err \<Rightarrow> Inl err
              | Inr (ent_iobs, ent_types) \<Rightarrow>
                  annot2array_doc_new c doc_annot
                    (dict_set (dict_set tok_annot ''ENT_IOB'' (TStrs ent_iobs))
                       ''ENT_TYPE'' (TStrs ent_types))
                    (Some orth_words) items))
      else if key = ''links'' then
        (let entities = (case map_of doc_annot ''entities'' of
                           None \<Rightarrow> Other False | Some es \<Rightarrow> es)
         in if truthy v \<and> \<not> truthy entities then Inl LinkEntityMismatchError
            else (case words of
                    None \<Rightarrow> Inl NameError
                  | Some orth_words \<Rightarrow>
                      (case (orth_words, v, entities) of
                         (TStrs ws, Links links, Entities dents) \<Rightarrow>
                           (case parse_links ws links dents of
                              Inl err \<Rightarrow> Inl err
                            | Inr ent_kb_ids \<Rightarrow>
                                annot2array_doc_new c doc_annot
                                  (dict_set tok_annot ''ENT_KB_ID'' (TStrs ent_kb_ids))
                                  words items)
                       | _ \<Rightarrow> Inl TypeError)))
      else if key = ''cats'' then annot2array_doc_new c doc_annot tok_annot words items
      else Inl (UnknownDocAttribute key))"

text \<open>\<^verbatim>\<open>_annot2array(vocab, tok_annot, doc_annot)\<close> of \<^verbatim>\<open>src/spacy/gold/new_example.pyx\<close>.\<close>

definition annot2array_new ::
  "vocab \<Rightarrow> iob_collab \<Rightarrow> tok_annot \<Rightarrow> doc_annot
     \<Rightarrow> py_error + (string list \<times> 64 word list list)" where
  "annot2array_new voc c tok_annot doc_annot =
     (case annot2array_doc_new c doc_annot tok_annot None doc_annot of
        Inl err \<Rightarrow> Inl err
      | Inr tok_annot' \<Rightarrow>
          (case annot2array_tok_new voc tok_annot' of
             Inl err \<Rightarrow> Inl err
           | Inr (attrs, vals) \<Rightarrow>
               (case asarray_T vals of
                  Inl err \<Rightarrow> Inl err
                | Inr array \<Rightarrow> Inr (attrs, array))))"

text \<open>
  Modelled from the spec: \<^verbatim>\<open>biluo_to_iob\<close> for concrete tags. A unit tag \<^verbatim>\<open>U-\<close>label
  becomes \<^verbatim>\<open>B-\<close>label, a last tag \<^verbatim>\<open>L-\<close>label becomes \<^verbatim>\<open>I-\<close>label, every other tag
  stays.
\<close>

definition plain_biluo_to_iob :: "string option list \<Rightarrow> py_error + string option list" where
  "plain_biluo_to_iob tags =
     Inr (map (map_option (\<lambda>t. if take 2 t = ''U-'' then ''B-'' @ drop 2 t
                               else if take 2 t = ''L-'' then ''I-'' @ drop 2 t else t)) tags)"

definition plain_iob_collab :: iob_collab where
  "plain_iob_collab = ner_collab.extend plain_collab (iob_collab.fields plain_biluo_to_iob)"

section \<open>Properties of \<^verbatim>\<open>_parse_links\<close>\<close>


lemma assign_range_upt:
  "b < length kb \<Longrightarrow>
   \<exists>kb'. assign_range kb [a..<Suc b] k = Inr kb' \<and> length kb' = length kb
     \<and> (\<forall>i. a \<le> i \<and> i \<le> b \<longrightarrow> kb' ! i = k)
     \<and> (\<forall>i<length kb. \<not> (a \<le> i \<and> i \<le> b) \<longrightarrow> kb' ! i = kb ! i)"
proof (induction "Suc b - a" arbitrary: a kb)
  case 0
  then show ?case by auto
next
  case (Suc n)
  then have ab: "a \<le> b" and n: "n = Suc b - Suc a" by simp_all
  have upt: "[a..<Suc b] = a # [Suc a..<Suc b]" using ab by (simp add: upt_conv_Cons)
  have len: "b < length (kb[a := k])" using Suc.prems by simp
  from Suc.hyps(1)[OF n len] obtain kb' where
    r: "assign_range (kb[a := k]) [Suc a..<Suc b] k = Inr kb'"
    and l: "length kb' = length (kb[a := k])"
    and inr: "\<forall>i. Suc a \<le> i \<and> i \<le> b \<longrightarrow> kb' ! i = k"
    and out: "\<forall>i<length (kb[a := k]). \<not> (Suc a \<le> i \<and> i \<le> b) \<longrightarrow> kb' ! i = (kb[a := k]) ! i"
    by blast
  have a_lt: "a < length kb" using ab Suc.prems by simp
  have "assign_range kb [a..<Suc b] k = Inr kb'" using r a_lt upt by simp
  moreover have "length kb' = length kb" using l by simp
  moreover have "\<forall>i. a \<le> i \<and> i \<le> b \<longrightarrow> kb' ! i = k"
  proof (intro allI impI)
    fix i assume i: "a \<le> i \<and> i \<le> b"
    show "kb' ! i = k"
    proof (cases "i = a")
      case True
      then show ?thesis using out a_lt by simp
    next
      case False
      then show ?thesis using inr i by simp
    qed
  qed
  moreover have "\<forall>i<length kb. \<not> (a \<le> i \<and> i \<le> b) \<longrightarrow> kb' ! i = kb ! i"
    using out ab by (auto simp: nth_list_update)
  ultimately show ?case by blast
qed

lemma true_kb_ids_filter: "true_kb_ids kvs = map fst (filter (\<lambda>p. snd p = 1) kvs)"
  by (induction kvs rule: true_kb_ids.induct) auto

lemma links_loop_append:
  "links_loop sts ens kb (pre @ l # post) =
     (case links_loop sts ens kb pre of
        Inl err \<Rightarrow> Inl err
      | Inr kb1 \<Rightarrow> (case link_entry sts ens kb1 l of
                     Inl err \<Rightarrow> Inl err
                   | Inr kb2 \<Rightarrow> links_loop sts ens kb2 post))"
  by (induction pre arbitrary: kb) (auto split: sum.splits)



lemma length_token_idxs: "length (token_idxs pos ws) = length ws"
  by (induction ws arbitrary: pos) auto

lemma length_token_ends: "length (token_ends ws) = length ws"
  by (simp add: token_ends_def length_token_idxs)

lemma dict_of_zip_Some:
  "dict_of (zip ks [0..<n]) k = Some i \<Longrightarrow> i < n"
proof -
  assume "dict_of (zip ks [0..<n]) k = Some i"
  then have "(k, i) \<in> set (rev (zip ks [0..<n]))"
    unfolding dict_of_def by (rule map_of_SomeD)
  then have "i \<in> set [0..<n]" by (auto dest: set_zip_rightD)
  then show ?thesis by simp
qed

lemma dict_of_zip_None:
  "length ks = n \<Longrightarrow> (dict_of (zip ks [0..<n]) k = None) = (k \<notin> set ks)"
  by (simp add: dict_of_def map_of_eq_None_iff flip: set_map)

lemma starts_Some_lt: "starts ws s = Some a \<Longrightarrow> a < length ws"
  unfolding starts_def by (rule dict_of_zip_Some)

lemma ends_Some_lt: "ends ws e = Some b \<Longrightarrow> b < length ws"
  unfolding ends_def by (rule dict_of_zip_Some)

lemma starts_None_iff: "(starts ws s = None) = (s \<notin> int ` set (token_idxs 0 ws))"
  unfolding starts_def by (subst dict_of_zip_None) (simp_all add: length_token_idxs)

lemma ends_None_iff: "(ends ws e = None) = (e \<notin> int ` set (token_ends ws))"
  unfolding ends_def by (subst dict_of_zip_None) (simp_all add: length_token_ends)

lemma check_links_mismatch:
  "\<exists>l \<in> set links. (SInt (fst (fst l)), SInt (snd (fst l))) \<notin> set em \<Longrightarrow>
   check_links em links = Inl LinkEntityMismatchError"
  by (induction em links rule: check_links.induct) auto

lemma check_links_ok:
  "(check_links em links = Inr ()) = (\<forall>l \<in> set links. (SInt (fst (fst l)), SInt (snd (fst l))) \<in> set em)"
  by (induction em links rule: check_links.induct) auto


lemma check_links_cases:
  "check_links em links = Inr () \<or> check_links em links = Inl LinkEntityMismatchError"
  by (induction em links rule: check_links.induct) auto


lemma assign_range_length:
  "assign_range kb is k = Inr kb' \<Longrightarrow> length kb' = length kb"
proof (induction "is" arbitrary: kb)
  case Nil
  then show ?case by simp
next
  case (Cons i "is")
  then have "assign_range (kb[i := k]) is k = Inr kb'" by (simp split: if_splits)
  from Cons.IH[OF this] show ?case by simp
qed

lemma link_entry_length:
  "link_entry sts ens kb l = Inr kb' \<Longrightarrow> length kb' = length kb"
  by (auto simp: link_entry_def Let_def split: if_splits option.splits
      dest: assign_range_length)

lemma links_loop_length:
  "links_loop sts ens kb ls = Inr kb' \<Longrightarrow> length kb' = length kb"
proof (induction ls arbitrary: kb)
  case Nil
  then show ?case by simp
next
  case (Cons l ls)
  then obtain kb1 where a: "link_entry sts ens kb l = Inr kb1"
    and b: "links_loop sts ens kb1 ls = Inr kb'"
    by (auto split: sum.splits)
  show ?case using Cons.IH[OF b] link_entry_length[OF a] by simp
qed

lemma parse_links_reached:
  assumes "entity_map entities = Inr em"
    and "check_links em (pre @ l # post) = Inr ()"
    and "links_loop (starts words) (ends words) (replicate (length words) []) pre = Inr kb"
  shows "parse_links words (pre @ l # post) entities =
           (case link_entry (starts words) (ends words) kb l of
              Inl err \<Rightarrow> Inl err
            | Inr kb' \<Rightarrow> links_loop (starts words) (ends words) kb' post)"
  using assms by (simp add: parse_links_def links_loop_append)

text \<open>
  C5, as amended. Let the links of \<^verbatim>\<open>_parse_links\<close> all match a declared entity, and
  let the second loop reach the entry \<open>l\<close> with the kb-ids \<open>kb\<close> written so far. If more
  than one kb-id of \<open>l\<close> has weight \<open>1.0\<close>, \<^verbatim>\<open>_parse_links\<close> raises the ambiguous-link
  error. If exactly one has, \<open>k\<close>, and the offsets of \<open>l\<close> are the start of token \<open>a\<close> and
  the end of token \<open>b\<close>, the loop goes on with \<open>k\<close> at every token index from \<open>a\<close> to \<open>b\<close>
  and every other entry as it was. If none has, the loop goes on with \<open>kb\<close> unchanged.
  What the loop goes on with is the result of \<^verbatim>\<open>_parse_links\<close> when \<open>l\<close> is the last
  entry.
\<close>

theorem parse_links_entry_cases:
  assumes "entity_map entities = Inr em"
    and "check_links em (pre @ l # post) = Inr ()"
    and "links_loop (starts words) (ends words) (replicate (length words) []) pre = Inr kb"
  shows "(1 < length (true_kb_ids (snd l)) \<longrightarrow>
            parse_links words (pre @ l # post) entities = Inl AmbiguousLinkError)
   \<and> (true_kb_ids (snd l) = [k] \<and> starts words (fst (fst l)) = Some a
        \<and> ends words (snd (fst l)) = Some b \<longrightarrow>
        (\<exists>kb'. length kb' = length words
            \<and> (\<forall>i. a \<le> i \<and> i \<le> b \<longrightarrow> kb' ! i = k)
            \<and> (\<forall>i<length words. \<not> (a \<le> i \<and> i \<le> b) \<longrightarrow> kb' ! i = kb ! i)
            \<and> parse_links words (pre @ l # post) entities
                = links_loop (starts words) (ends words) kb' post
            \<and> (post = [] \<longrightarrow> parse_links words (pre @ l # post) entities = Inr kb')))
   \<and> (true_kb_ids (snd l) = [] \<longrightarrow>
        parse_links words (pre @ l # post) entities
          = links_loop (starts words) (ends words) kb post
        \<and> (post = [] \<longrightarrow> parse_links words (pre @ l # post) entities = Inr kb))"
proof -
  note r = parse_links_reached[OF assms]
  have len: "length kb = length words"
    using links_loop_length[OF assms(3)] by simp
  show ?thesis
  proof (intro conjI impI)
    assume "1 < length (true_kb_ids (snd l))"
    then have "link_entry (starts words) (ends words) kb l = Inl AmbiguousLinkError"
      by (simp add: link_entry_def)
    then show "parse_links words (pre @ l # post) entities = Inl AmbiguousLinkError"
      using r by simp
  next
    assume h: "true_kb_ids (snd l) = [k] \<and> starts words (fst (fst l)) = Some a
        \<and> ends words (snd (fst l)) = Some b"
    then have "b < length words" by (auto dest: ends_Some_lt)
    then have b: "b < length kb" using len by simp
    from h have e: "link_entry (starts words) (ends words) kb l = assign_range kb [a..<Suc b] k"
      by (simp add: link_entry_def)
    from assign_range_upt[OF b, of a k] obtain kb' where
      k: "assign_range kb [a..<Suc b] k = Inr kb'" "length kb' = length kb"
         "\<forall>i. a \<le> i \<and> i \<le> b \<longrightarrow> kb' ! i = k"
         "\<forall>i<length kb. \<not> (a \<le> i \<and> i \<le> b) \<longrightarrow> kb' ! i = kb ! i"
      by blast
    have p: "parse_links words (pre @ l # post) entities
               = links_loop (starts words) (ends words) kb' post"
      using r e k(1) by simp
    have pl: "post = [] \<longrightarrow> parse_links words (pre @ l # post) entities = Inr kb'"
    proof (rule impI)
      assume e: "post = []"
      show "parse_links words (pre @ l # post) entities = Inr kb'"
        using p e by simp
    qed
    show "\<exists>kb'. length kb' = length words
            \<and> (\<forall>i. a \<le> i \<and> i \<le> b \<longrightarrow> kb' ! i = k)
            \<and> (\<forall>i<length words. \<not> (a \<le> i \<and> i \<le> b) \<longrightarrow> kb' ! i = kb ! i)
            \<and> parse_links words (pre @ l # post) entities
                = links_loop (starts words) (ends words) kb' post
            \<and> (post = [] \<longrightarrow> parse_links words (pre @ l # post) entities = Inr kb')"
    proof (intro exI conjI)
      show "length kb' = length words" using k(2) len by simp
      show "\<forall>i. a \<le> i \<and> i \<le> b \<longrightarrow> kb' ! i = k" by (rule k(3))
      show "\<forall>i<length words. \<not> (a \<le> i \<and> i \<le> b) \<longrightarrow> kb' ! i = kb ! i"
        using k(4) len by simp
      show "parse_links words (pre @ l # post) entities
                = links_loop (starts words) (ends words) kb' post" by (rule p)
      show "post = [] \<longrightarrow> parse_links words (pre @ l # post) entities = Inr kb'" by (rule pl)
    qed
  next
    assume z: "true_kb_ids (snd l) = []"
    then have "link_entry (starts words) (ends words) kb l = Inr kb"
      by (simp add: link_entry_def)
    then show "parse_links words (pre @ l # post) entities
                 = links_loop (starts words) (ends words) kb post"
      using r by simp
  next
    assume z: "true_kb_ids (snd l) = []" and "post = []"
    then have "link_entry (starts words) (ends words) kb l = Inr kb"
      by (simp add: link_entry_def)
    then show "parse_links words (pre @ l # post) entities = Inr kb"
      using r \<open>post = []\<close> by simp
  qed
qed

theorem parse_links_entry_cases_witness:
  "parse_links [''Utah'', ''is''] [((0, 4), [(''Q1'', 1), (''Q2'', 1)])] [EOffsets 0 4 ''GPE'']
     = Inl AmbiguousLinkError
   \<and> parse_links [''Utah'', ''is''] [((0, 7), [(''Q1'', 1), (''Q2'', 0)])] [EOffsets 0 7 ''GPE'']
     = Inr [''Q1'', ''Q1'']
   \<and> parse_links [''Utah'', ''is''] [((0, 4), [(''Q1'', 1 / 2)])] [EOffsets 0 4 ''GPE'']
     = Inr [[], []]"
proof -
  have s0: "starts [''Utah'', ''is''] 0 = Some 0"
    by (simp add: starts_def dict_of_def)
  have e7: "ends [''Utah'', ''is''] 7 = Some 1"
    by (simp add: ends_def token_ends_def dict_of_def)
  have c1: "parse_links [''Utah'', ''is''] ([] @ ((0, 4), [(''Q1'', 1), (''Q2'', 1)]) # [])
              [EOffsets 0 4 ''GPE''] = Inl AmbiguousLinkError"
    using parse_links_entry_cases[where em = "[(SInt 0, SInt 4)]" and pre = "[]" and post = "[]"
        and l = "((0, 4), [(''Q1'', 1), (''Q2'', 1)])" and words = "[''Utah'', ''is'']"
        and entities = "[EOffsets 0 4 ''GPE'']" and kb = "[[], []]", THEN conjunct1]
    by simp
  have h2: "true_kb_ids (snd ((0 :: int, 7 :: int), [(''Q1'', 1 :: real), (''Q2'', 0)])) = [''Q1'']
            \<and> starts [''Utah'', ''is''] (fst (fst ((0 :: int, 7 :: int), [(''Q1'', 1 :: real), (''Q2'', 0)]))) = Some 0
            \<and> ends [''Utah'', ''is''] (snd (fst ((0 :: int, 7 :: int), [(''Q1'', 1 :: real), (''Q2'', 0)]))) = Some 1"
    using s0 e7 by simp
  have pre2: "entity_map [EOffsets 0 7 ''GPE''] = Inr [(SInt 0, SInt 7)]"
    "check_links [(SInt 0, SInt 7)] ([] @ ((0, 7), [(''Q1'', 1), (''Q2'', 0)]) # []) = Inr ()"
    "links_loop (starts [''Utah'', ''is'']) (ends [''Utah'', ''is''])
       (replicate (length [''Utah'', ''is'']) []) [] = Inr [[], []]"
    by simp_all
  have "\<exists>kb'. length kb' = length [''Utah'', ''is'']
          \<and> (\<forall>i. 0 \<le> i \<and> i \<le> 1 \<longrightarrow> kb' ! i = ''Q1'')
          \<and> (\<forall>i<length [''Utah'', ''is'']. \<not> (0 \<le> i \<and> i \<le> 1) \<longrightarrow> kb' ! i = [[], []] ! i)
          \<and> parse_links [''Utah'', ''is''] ([] @ ((0, 7), [(''Q1'', 1), (''Q2'', 0)]) # [])
                [EOffsets 0 7 ''GPE'']
              = links_loop (starts [''Utah'', ''is'']) (ends [''Utah'', ''is'']) kb' []
          \<and> ([] = ([] :: link list) \<longrightarrow>
               parse_links [''Utah'', ''is''] ([] @ ((0, 7), [(''Q1'', 1), (''Q2'', 0)]) # [])
                 [EOffsets 0 7 ''GPE''] = Inr kb')"
    by (rule parse_links_entry_cases[OF pre2, THEN conjunct2, THEN conjunct1, rule_format, OF h2])
  then obtain kb' where l2: "length kb' = length [''Utah'', ''is'']"
    and al: "\<forall>i. 0 \<le> i \<and> i \<le> 1 \<longrightarrow> kb' ! i = ''Q1''"
    and pe: "[] = ([] :: link list) \<longrightarrow>
               parse_links [''Utah'', ''is''] ([] @ ((0, 7), [(''Q1'', 1), (''Q2'', 0)]) # [])
                 [EOffsets 0 7 ''GPE''] = Inr kb'"
    by (elim exE conjE)
  have k: "length kb' = 2" "kb' ! 0 = ''Q1''" "kb' ! 1 = ''Q1''"
    using l2 al by simp_all
  have p: "parse_links [''Utah'', ''is''] [((0, 7), [(''Q1'', 1), (''Q2'', 0)])]
              [EOffsets 0 7 ''GPE''] = Inr kb'"
    using pe by simp
  from k(1) obtain u w where uw: "kb' = [u, w]"
    by (auto simp: length_Suc_conv numeral_2_eq_2)
  have "kb' = [''Q1'', ''Q1'']"
    using k(2,3) unfolding uw by simp
  then have c2: "parse_links [''Utah'', ''is''] [((0, 7), [(''Q1'', 1), (''Q2'', 0)])]
              [EOffsets 0 7 ''GPE''] = Inr [''Q1'', ''Q1'']"
    using p by simp
  have c3: "parse_links [''Utah'', ''is''] ([] @ ((0, 4), [(''Q1'', 1 / 2)]) # [])
              [EOffsets 0 4 ''GPE''] = Inr [[], []]"
    using parse_links_entry_cases[where em = "[(SInt 0, SInt 4)]" and pre = "[]" and post = "[]"
        and l = "((0, 4), [(''Q1'', 1 / 2)])" and words = "[''Utah'', ''is'']"
        and entities = "[EOffsets 0 4 ''GPE'']" and kb = "[[], []]", THEN conjunct2, THEN conjunct2]
    by simp
  show ?thesis using c1 c2 c3 by simp
qed

text \<open>
  C5 as stated fails in two ways. A link with exactly one kb-id of weight \<open>1.0\<close> whose end
  offset is inside a token assigns nothing: \<^verbatim>\<open>_parse_links\<close> raises a \<^verbatim>\<open>TypeError\<close>. And
  the token of a link without any kb-id of weight \<open>1.0\<close> is not left empty when an earlier
  link over the same token has written it.
\<close>

theorem parse_links_not_assigned_not_empty:
  "parse_links [''New'', ''York''] [((0, 5), [(''Q60'', 1)])] [EOffsets 0 5 ''LOC'']
     = Inl TypeError
   \<and> parse_links [''New'', ''York'']
       [((0, 8), [(''Q60'', 1)]), ((0, 3), [(''Q61'', 1 / 2)])]
       [EOffsets 0 8 ''LOC'', EOffsets 0 3 ''ADJ'']
     = Inr [''Q60'', ''Q60'']"
  by (simp add: parse_links_def starts_def ends_def token_ends_def dict_of_def link_entry_def)

text \<open>
  C10. A links entry whose span is among the declared entities and whose weight map has
  exactly one kb-id of weight \<open>1.0\<close>, reached by the second loop, makes \<^verbatim>\<open>_parse_links\<close>
  fail with a \<^verbatim>\<open>TypeError\<close>, which is neither of the two documented errors, as soon as its
  start offset is no token start or its end offset is no token end of the document built
  from the words.
\<close>

theorem parse_links_off_boundary:
  assumes "entity_map entities = Inr em"
    and "check_links em (pre @ l # post) = Inr ()"
    and "links_loop (starts words) (ends words) (replicate (length words) []) pre = Inr kb"
    and "true_kb_ids (snd l) = [k]"
    and "fst (fst l) \<notin> int ` set (token_idxs 0 words)
         \<or> snd (fst l) \<notin> int ` set (token_ends words)"
  shows "parse_links words (pre @ l # post) entities = Inl TypeError
         \<and> TypeError \<noteq> LinkEntityMismatchError \<and> TypeError \<noteq> AmbiguousLinkError"
proof -
  have "starts words (fst (fst l)) = None \<or> ends words (snd (fst l)) = None"
    using assms(5) by (simp add: starts_None_iff ends_None_iff)
  then have "link_entry (starts words) (ends words) kb l = Inl TypeError"
    using assms(4) by (auto simp: link_entry_def split: option.splits)
  then show ?thesis
    using assms(1-3) by (simp add: parse_links_def links_loop_append)
qed

theorem parse_links_off_boundary_witness:
  "parse_links [''Utah'', ''is''] [((0, 3), [(''Q1'', 1)])] [EOffsets 0 3 ''GPE''] = Inl TypeError"
proof -
  have "parse_links [''Utah'', ''is''] ([] @ ((0, 3), [(''Q1'', 1)]) # []) [EOffsets 0 3 ''GPE'']
          = Inl TypeError
        \<and> TypeError \<noteq> LinkEntityMismatchError \<and> TypeError \<noteq> AmbiguousLinkError"
    by (rule parse_links_off_boundary[where em = "[(SInt 0, SInt 3)]" and kb = "[[], []]"
          and k = "''Q1''"])
       (simp_all add: token_ends_def)
  then show ?thesis by simp
qed

section \<open>Properties of \<^verbatim>\<open>_annot2array\<close>\<close>


lemma annot2array_doc_links_error:
  assumes "\<forall>kv \<in> set items. truthy (snd kv) \<longrightarrow> fst kv \<in> {''entities'', ''links'', ''cats''}"
    and "map_of items ''links'' = Some v"
    and "truthy v"
    and "links_field doc_annot tok_annot v = Inl err"
  shows "annot2array_doc doc_annot tok_annot items = Inl err"
  using assms
proof (induction items)
  case Nil
  then show ?case by simp
next
  case (Cons kv items)
  obtain k w where kv: "kv = (k, w)" by (cases kv)
  show ?case
  proof (cases "k = ''links''")
    case True
    then have "w = v" using Cons.prems(2) kv by simp
    then show ?thesis using True kv Cons.prems(3,4) by simp
  next
    case False
    then have m: "map_of items ''links'' = Some v" using Cons.prems(2) kv by simp
    have ih: "annot2array_doc doc_annot tok_annot items = Inl err"
      using Cons.IH Cons.prems(1,3,4) m by simp
    have "truthy w \<longrightarrow> k = ''entities'' \<or> k = ''cats''"
      using Cons.prems(1) kv False by auto
    then show ?thesis using ih kv False by auto
  qed
qed

lemma parse_links_mismatch:
  assumes "entity_map dents = Inr em"
    and "l \<in> set links"
    and "(SInt (fst (fst l)), SInt (snd (fst l))) \<notin> set em"
  shows "parse_links words links dents = Inl LinkEntityMismatchError"
proof -
  have "check_links em links = Inl LinkEntityMismatchError"
    by (rule check_links_mismatch) (use assms in blast)
  then show ?thesis using assms(1) by (simp add: parse_links_def)
qed

lemma entity_map_pairs:
  "entity_map dents = Inr em \<Longrightarrow> p \<in> set em \<Longrightarrow> \<exists>d \<in> set dents. ent_pair d = Inr p"
proof (induction dents arbitrary: em)
  case Nil
  then show ?case by simp
next
  case (Cons d dents)
  then obtain q qs where q: "ent_pair d = Inr q" and qs: "entity_map dents = Inr qs"
    and e: "em = q # qs"
    by (auto split: sum.splits)
  show ?case
  proof (cases "p = q")
    case True
    then show ?thesis using q by simp
  next
    case False
    then have "p \<in> set qs" using Cons.prems(2) e by simp
    then show ?thesis using Cons.IH[OF qs] by auto
  qed
qed

lemma ent_pair_offsets:
  "ent_pair d = Inr (SInt s, SInt e) \<Longrightarrow> \<exists>lab. d = EOffsets s e lab"
  by (cases d) (auto split: list.splits)

lemma parse_links_fails:
  assumes "l \<in> set links"
    and "\<forall>lab. EOffsets (fst (fst l)) (snd (fst l)) lab \<notin> set dents"
  shows "\<exists>err. parse_links words links dents = Inl err"
proof (cases "entity_map dents")
  case (Inl err)
  then show ?thesis by (simp add: parse_links_def)
next
  case (Inr em)
  have "(SInt (fst (fst l)), SInt (snd (fst l))) \<notin> set em"
  proof
    assume "(SInt (fst (fst l)), SInt (snd (fst l))) \<in> set em"
    from entity_map_pairs[OF Inr this] obtain d where
      "d \<in> set dents" "ent_pair d = Inr (SInt (fst (fst l)), SInt (snd (fst l)))" by blast
    then show False using assms(2) ent_pair_offsets by blast
  qed
  then have "parse_links words links dents = Inl LinkEntityMismatchError"
    using parse_links_mismatch[OF Inr assms(1)] by simp
  then show ?thesis by blast
qed

text \<open>
  C6, as amended. Let every truthy field of \<^verbatim>\<open>doc_annot\<close> be one of \<^verbatim>\<open>entities\<close>,
  \<^verbatim>\<open>links\<close> and \<^verbatim>\<open>cats\<close>, and let \<^verbatim>\<open>links\<close> have an entry \<open>l\<close>. When no entities are
  declared (the key is absent or its value is falsy), or when the entity list yields its
  pairs \<^verbatim>\<open>(ent[0], ent[1])\<close>, as a list of offset triples does, and the span of \<open>l\<close> is not
  among them, encoding raises the link/entity mismatch error, already in the first loop of
  \<^verbatim>\<open>_annot2array\<close>, before the token columns and the array are built. Whatever the form
  of the entities, an entry whose span is the span of no declared offset triple is never
  ignored: encoding fails.
\<close>

theorem annot2array_link_mismatch:
  assumes "\<forall>kv \<in> set doc_annot. truthy (snd kv) \<longrightarrow> fst kv \<in> {''entities'', ''links'', ''cats''}"
    and "map_of doc_annot ''links'' = Some (Links links)"
    and "l \<in> set links"
  shows "((map_of doc_annot ''entities'' = None
          \<or> (\<exists>es. map_of doc_annot ''entities'' = Some es \<and> \<not> truthy es))
         \<or> (\<exists>dents em words. map_of doc_annot ''entities'' = Some (Entities dents)
               \<and> map_of tok_annot ''ORTH'' = Some (TStrs words)
               \<and> entity_map dents = Inr em
               \<and> (SInt (fst (fst l)), SInt (snd (fst l))) \<notin> set em)
         \<longrightarrow> annot2array_doc doc_annot tok_annot doc_annot = Inl LinkEntityMismatchError
             \<and> annot2array voc tok_annot doc_annot = Inl LinkEntityMismatchError)
       \<and> ((\<exists>dents words. map_of doc_annot ''entities'' = Some (Entities dents)
               \<and> map_of tok_annot ''ORTH'' = Some (TStrs words)
               \<and> (\<forall>lab. EOffsets (fst (fst l)) (snd (fst l)) lab \<notin> set dents))
         \<longrightarrow> (\<exists>err. annot2array voc tok_annot doc_annot = Inl err))"
proof (rule conjI; rule impI)
  have t: "truthy (Links links)" using assms(3) by auto
  assume h: "(map_of doc_annot ''entities'' = None
          \<or> (\<exists>es. map_of doc_annot ''entities'' = Some es \<and> \<not> truthy es))
         \<or> (\<exists>dents em words. map_of doc_annot ''entities'' = Some (Entities dents)
               \<and> map_of tok_annot ''ORTH'' = Some (TStrs words)
               \<and> entity_map dents = Inr em
               \<and> (SInt (fst (fst l)), SInt (snd (fst l))) \<notin> set em)"
  have "links_field doc_annot tok_annot (Links links) = Inl LinkEntityMismatchError"
    using h
  proof (elim disjE exE conjE)
    assume "map_of doc_annot ''entities'' = None"
    then show ?thesis by (simp add: links_field_def)
  next
    fix es assume "map_of doc_annot ''entities'' = Some es" "\<not> truthy es"
    then show ?thesis by (simp add: links_field_def)
  next
    fix dents em words
    assume g: "map_of doc_annot ''entities'' = Some (Entities dents)"
      "map_of tok_annot ''ORTH'' = Some (TStrs words)"
      "entity_map dents = Inr em"
      "(SInt (fst (fst l)), SInt (snd (fst l))) \<notin> set em"
    have "parse_links words links dents = Inl LinkEntityMismatchError"
      using parse_links_mismatch[OF g(3) assms(3) g(4)] .
    then show ?thesis using g(1,2) by (simp add: links_field_def)
  qed
  then have d: "annot2array_doc doc_annot tok_annot doc_annot = Inl LinkEntityMismatchError"
    using annot2array_doc_links_error[OF assms(1) assms(2) t] by simp
  then show "annot2array_doc doc_annot tok_annot doc_annot = Inl LinkEntityMismatchError
             \<and> annot2array voc tok_annot doc_annot = Inl LinkEntityMismatchError"
    by (simp add: annot2array_def)
next
  have t: "truthy (Links links)" using assms(3) by auto
  assume "\<exists>dents words. map_of doc_annot ''entities'' = Some (Entities dents)
               \<and> map_of tok_annot ''ORTH'' = Some (TStrs words)
               \<and> (\<forall>lab. EOffsets (fst (fst l)) (snd (fst l)) lab \<notin> set dents)"
  then obtain dents words where g: "map_of doc_annot ''entities'' = Some (Entities dents)"
    "map_of tok_annot ''ORTH'' = Some (TStrs words)"
    "\<forall>lab. EOffsets (fst (fst l)) (snd (fst l)) lab \<notin> set dents"
    by blast
  from parse_links_fails[OF assms(3) g(3)] obtain err where
    e: "parse_links words links dents = Inl err" by blast
  have "\<exists>err'. links_field doc_annot tok_annot (Links links) = Inl err'"
    using g(1,2) e by (cases "dents = []") (simp_all add: links_field_def)
  then obtain err' where "links_field doc_annot tok_annot (Links links) = Inl err'" by blast
  then have "annot2array_doc doc_annot tok_annot doc_annot = Inl err'"
    using annot2array_doc_links_error[OF assms(1) assms(2) t] by simp
  then show "\<exists>err. annot2array voc tok_annot doc_annot = Inl err"
    by (simp add: annot2array_def)
qed

theorem annot2array_link_mismatch_witness:
  "annot2array small_vocab [(''ORTH'', TStrs [''Utah'', ''is''])]
     [(''entities'', Entities [EOffsets 0 4 ''GPE'']), (''links'', Links [((0, 7), [(''Q1'', 1)])])]
     = Inl LinkEntityMismatchError
   \<and> annot2array small_vocab [(''ORTH'', TStrs [''Utah'', ''is''])]
     [(''cats'', Cats [(''A'', 1)]), (''links'', Links [((0, 4), [(''Q1'', 1)])])]
     = Inl LinkEntityMismatchError
   \<and> (\<exists>err. annot2array small_vocab [(''ORTH'', TStrs [''Utah'', ''is''])]
     [(''entities'', Entities [ETag ''U-GPE'', ETag ''O'']),
      (''links'', Links [((0, 4), [(''Q1'', 1)])])]
     = Inl err)"
proof -
  have a: "annot2array small_vocab [(''ORTH'', TStrs [''Utah'', ''is''])]
     [(''entities'', Entities [EOffsets 0 4 ''GPE'']), (''links'', Links [((0, 7), [(''Q1'', 1)])])]
     = Inl LinkEntityMismatchError"
    using annot2array_link_mismatch[where doc_annot =
        "[(''entities'', Entities [EOffsets 0 4 ''GPE'']), (''links'', Links [((0, 7), [(''Q1'', 1)])])]"
        and links = "[((0, 7), [(''Q1'', 1)])]" and l = "((0, 7), [(''Q1'', 1)])"
        and tok_annot = "[(''ORTH'', TStrs [''Utah'', ''is''])]" and voc = small_vocab,
        THEN conjunct1]
    by simp
  have b: "annot2array small_vocab [(''ORTH'', TStrs [''Utah'', ''is''])]
     [(''cats'', Cats [(''A'', 1)]), (''links'', Links [((0, 4), [(''Q1'', 1)])])]
     = Inl LinkEntityMismatchError"
    using annot2array_link_mismatch[where doc_annot =
        "[(''cats'', Cats [(''A'', 1)]), (''links'', Links [((0, 4), [(''Q1'', 1)])])]"
        and links = "[((0, 4), [(''Q1'', 1)])]" and l = "((0, 4), [(''Q1'', 1)])"
        and tok_annot = "[(''ORTH'', TStrs [''Utah'', ''is''])]" and voc = small_vocab,
        THEN conjunct1]
    by simp
  have c: "\<exists>err. annot2array small_vocab [(''ORTH'', TStrs [''Utah'', ''is''])]
     [(''entities'', Entities [ETag ''U-GPE'', ETag ''O'']),
      (''links'', Links [((0, 4), [(''Q1'', 1)])])]
     = Inl err"
    using annot2array_link_mismatch[where doc_annot =
        "[(''entities'', Entities [ETag ''U-GPE'', ETag ''O'']),
          (''links'', Links [((0, 4), [(''Q1'', 1)])])]"
        and links = "[((0, 4), [(''Q1'', 1)])]" and l = "((0, 4), [(''Q1'', 1)])"
        and tok_annot = "[(''ORTH'', TStrs [''Utah'', ''is''])]" and voc = small_vocab,
        THEN conjunct2]
    by simp
  show ?thesis using a b c by (intro conjI)
qed

text \<open>
  C6 as stated fails when the entities are declared as tag strings: building the pairs
  \<^verbatim>\<open>(ent[0], ent[1])\<close> raises \<^verbatim>\<open>IndexError\<close> on the one-character tag \<^verbatim>\<open>O\<close>, before any link
  is compared, so the link whose span matches no entity does not raise the mismatch error.
  Nor does it when an unknown document field comes before the links, or when the token
  dict has no words: these raise their own errors first.
\<close>

theorem annot2array_tag_entities_index_error:
  "annot2array small_vocab [(''ORTH'', TStrs [''Utah'', ''is''])]
     [(''entities'', Entities [ETag ''U-GPE'', ETag ''O'']),
      (''links'', Links [((0, 7), [(''Q1'', 1)])])]
   = Inl IndexError
   \<and> annot2array small_vocab [(''ORTH'', TStrs [''Utah'', ''is''])]
     [(''foo'', Other True),
      (''entities'', Entities [EOffsets 0 4 ''GPE'']),
      (''links'', Links [((0, 7), [(''Q1'', 1)])])]
   = Inl (UnknownDocAttribute ''foo'')
   \<and> annot2array small_vocab []
     [(''entities'', Entities [EOffsets 0 4 ''GPE'']),
      (''links'', Links [((0, 7), [(''Q1'', 1)])])]
   = Inl (KeyError ''ORTH'')"
  by (simp add: annot2array_def links_field_def parse_links_def)

lemma index_of_None: "v \<notin> set xs \<Longrightarrow> index_of xs v = None"
  by (induction xs) auto

lemma index_of_Some: "v \<in> set xs \<Longrightarrow> \<exists>n. index_of xs v = Some n"
  by (induction xs) auto

lemma iob_indices_unknown:
  "tag \<in> set tags \<Longrightarrow> tag \<notin> set iobs \<Longrightarrow> iob_indices iobs tags = Inl UnknownTagError"
proof (induction tags)
  case Nil
  then show ?case by simp
next
  case (Cons t tags)
  show ?case
  proof (cases "t \<in> set iobs")
    case True
    then obtain n where "index_of iobs t = Some n" using index_of_Some by fastforce
    moreover have "iob_indices iobs tags = Inl UnknownTagError" using Cons True by auto
    ultimately show ?thesis by simp
  next
    case False
    then show ?thesis by (simp add: index_of_None)
  qed
qed

lemma iob_indices_known:
  "set tags \<subseteq> set iobs \<Longrightarrow> \<exists>ns. iob_indices iobs tags = Inr ns"
proof (induction tags)
  case Nil
  then show ?case by simp
next
  case (Cons t tags)
  then obtain n ns where "index_of iobs t = Some n" "iob_indices iobs tags = Inr ns"
    using index_of_Some[of t iobs] by auto
  then show ?case by simp
qed

lemma annot2array_tok_new_append:
  "annot2array_tok_new voc pre = Inr r \<Longrightarrow>
   annot2array_tok_new voc (pre @ items) =
     (case annot2array_tok_new voc items of
        Inl err \<Rightarrow> Inl err
      | Inr (attrs, vals) \<Rightarrow> Inr (fst r @ attrs, snd r @ vals))"
  by (induction pre arbitrary: r) (auto split: if_splits sum.splits prod.splits)

lemma remap_loop_append:
  "remap_loop acc pre = Inr acc' \<Longrightarrow> remap_loop acc (pre @ rest) = remap_loop acc' rest"
proof (induction pre arbitrary: acc)
  case Nil
  then show ?case by simp
next
  case (Cons kv pre)
  obtain k v where kv: "kv = (k, v)" by (cases kv)
  show ?case
  proof (cases "k \<in> {''text'', ''ids'', ''brackets''}")
    case True
    then have "remap_loop acc pre = Inr acc'" using Cons.prems kv by simp
    then show ?thesis using Cons.IH True kv by simp
  next
    case False
    then obtain k' where k': "map_of remapping k = Some k'"
      using Cons.prems kv by (cases "map_of remapping k") simp_all
    then have "remap_loop (dict_set acc k' v) pre = Inr acc'" using Cons.prems kv False by simp
    then show ?thesis using Cons.IH False kv k' by simp
  qed
qed

lemma fix_legacy_ent_iob_rejected:
  assumes "remap_loop [] tpre = Inr acc"
  shows "fix_legacy_dict_data
           [(''token_annotation'', PDict (tpre @ (''ENT_IOB'', v) # tpost)),
            (''doc_annotation'', dd)]
         = Inl (UnknownKeyError ''ENT_IOB'')"
proof -
  have "remap_loop [] (tpre @ (''ENT_IOB'', v) # tpost) = remap_loop acc ((''ENT_IOB'', v) # tpost)"
    using assms by (rule remap_loop_append)
  then have r: "remap_loop [] (tpre @ (''ENT_IOB'', v) # tpost) = Inl (UnknownKeyError ''ENT_IOB'')"
    by (simp add: remapping_def)
  have h: "hoist (PDict (tpre @ (''ENT_IOB'', v) # tpost)) dd
             [(''token_annotation'', PDict (tpre @ (''ENT_IOB'', v) # tpost)),
              (''doc_annotation'', dd)]
           = Inr (PDict (tpre @ (''ENT_IOB'', v) # tpost), dd)"
    by (simp add: hoist_item_def)
  show ?thesis
    unfolding fix_legacy_dict_data_def by (simp add: h r Let_def del: hoist.simps)
qed

text \<open>
  C7, as amended. In \<^verbatim>\<open>_annot2array\<close> of \<^verbatim>\<open>src/spacy/gold/new_example.pyx\<close>, when the
  first loop leaves a token dict with an \<^verbatim>\<open>ENT_IOB\<close> field that the token loop reaches
  and that holds a tag outside \<^verbatim>\<open>Token.iob_strings()\<close>, encoding fails with the
  unknown-tag error. The token loop of \<^verbatim>\<open>src/unnamed/part_000\<close> has no such column:
  there an \<^verbatim>\<open>ENT_IOB\<close> field is interned by \<^verbatim>\<open>vocab.strings.add\<close> like any other string
  field, and the normaliser of \<^verbatim>\<open>from_dict\<close> rejects a \<^verbatim>\<open>token_annotation\<close> in which it
  reaches an \<^verbatim>\<open>ENT_IOB\<close> key, with the unknown-key error.
\<close>

theorem annot2array_new_unknown_tag:
  assumes "''ENT_IOB'' \<in> set (IDS voc)"
    and "annot2array_doc_new c doc_annot tok_annot None doc_annot
         = Inr (pre @ (''ENT_IOB'', TStrs tags) # post)"
    and "annot2array_tok_new voc pre = Inr r"
    and "tag \<in> set tags" and "tag \<notin> set (iob_strings voc)"
  shows "annot2array_new voc c tok_annot doc_annot = Inl UnknownTagError
         \<and> tok_column voc ''ENT_IOB'' (TStrs tags)
             = Inr (map (\<lambda>v. CInt (uint (strings_add voc v))) tags)
         \<and> (\<forall>tpre acc v tpost dd.
               remap_loop [] tpre = Inr acc \<longrightarrow>
               fix_legacy_dict_data
                 [(''token_annotation'', PDict (tpre @ (''ENT_IOB'', v) # tpost)),
                  (''doc_annotation'', dd)]
               = Inl (UnknownKeyError ''ENT_IOB''))"
proof -
  have "tok_column_new voc ''ENT_IOB'' (TStrs tags) = Inl UnknownTagError"
    using assms(4,5) by (simp add: tok_column_new_def iob_indices_unknown)
  then have "annot2array_tok_new voc ((''ENT_IOB'', TStrs tags) # post) = Inl UnknownTagError"
    using assms(1) by simp
  then have "annot2array_tok_new voc (pre @ (''ENT_IOB'', TStrs tags) # post)
                 = Inl UnknownTagError"
    using annot2array_tok_new_append[OF assms(3)] by simp
  then have a: "annot2array_new voc c tok_annot doc_annot = Inl UnknownTagError"
    by (simp add: annot2array_new_def assms(2))
  have b: "tok_column voc ''ENT_IOB'' (TStrs tags)
             = Inr (map (\<lambda>v. CInt (uint (strings_add voc v))) tags)"
    by (simp add: tok_column_def)
  show ?thesis using a b fix_legacy_ent_iob_rejected by (intro conjI allI impI)
qed

text \<open>
  The theorem at a document whose one entity is declared by the tag \<^verbatim>\<open>X-GPE\<close>: the
  first loop makes the \<^verbatim>\<open>ENT_IOB\<close> column \<^verbatim>\<open>X\<close> of it, which is no IOB string.
\<close>

theorem annot2array_new_unknown_tag_witness:
  "annot2array_new small_vocab plain_iob_collab [(''ORTH'', TStrs [''Utah''])]
     [(''entities'', Entities [ETag ''X-GPE''])]
   = Inl UnknownTagError
   \<and> tok_column small_vocab ''ENT_IOB'' (TStrs [''X'']) = Inr [CInt 9]
   \<and> fix_legacy_dict_data
        [(''token_annotation'', PDict [(''words'', PList [PStr ''Utah'']),
                                       (''ENT_IOB'', PList [PStr ''X''])]),
         (''doc_annotation'', PDict [])]
      = Inl (UnknownKeyError ''ENT_IOB'')"
proof -
  have d: "annot2array_doc_new plain_iob_collab [(''entities'', Entities [ETag ''X-GPE''])]
             [(''ORTH'', TStrs [''Utah''])] None [(''entities'', Entities [ETag ''X-GPE''])]
           = Inr ([(''ORTH'', TStrs [''Utah''])] @ (''ENT_IOB'', TStrs [''X''])
                    # [(''ENT_TYPE'', TStrs [[]])])"
    by (simp add: parse_ner_tags_def plain_iob_collab_def plain_biluo_to_iob_def
        ner_collab.extend_def iob_collab.fields_def ent_type_of_def iob_of_def)
  have t: "annot2array_tok_new small_vocab [(''ORTH'', TStrs [''Utah''])] = Inr ([], [])"
    by (simp add: small_vocab_def)
  note th = annot2array_new_unknown_tag[where voc = small_vocab and tag = "''X''"
      and tags = "[''X'']", OF _ d t]
  have i: "''ENT_IOB'' \<in> set (IDS small_vocab)" by (simp add: small_vocab_def)
  have x: "''X'' \<notin> set (iob_strings small_vocab)" by (simp add: small_vocab_def)
  have m: "''X'' \<in> set [''X'']" by simp
  have a: "annot2array_new small_vocab plain_iob_collab [(''ORTH'', TStrs [''Utah''])]
             [(''entities'', Entities [ETag ''X-GPE''])] = Inl UnknownTagError"
    using th[OF i m x, THEN conjunct1] .
  have b: "tok_column small_vocab ''ENT_IOB'' (TStrs [''X'']) = Inr [CInt 9]"
    using th[OF i m x, THEN conjunct2, THEN conjunct1]
    by (simp add: small_vocab_def table_add_def small_table_def)
  have r: "remap_loop [] [(''words'', PList [PStr ''Utah''])] = Inr [(''ORTH'', PList [PStr ''Utah''])]"
    by (simp add: remapping_def)
  have "fix_legacy_dict_data
        [(''token_annotation'', PDict ([(''words'', PList [PStr ''Utah''])]
                                        @ (''ENT_IOB'', PList [PStr ''X'']) # [])),
         (''doc_annotation'', PDict [])]
      = Inl (UnknownKeyError ''ENT_IOB'')"
    using th[OF i m x, THEN conjunct2, THEN conjunct2, rule_format, OF r] .
  then show ?thesis using a b by simp
qed

text \<open>
  C7 as stated fails on the token loop of \<^verbatim>\<open>src/unnamed/part_000\<close>: the tag \<^verbatim>\<open>X\<close>, which
  is no IOB string, is encoded as the id that the string store gives it.
\<close>

theorem annot2array_ent_iob_interned:
  "annot2array small_vocab
     [(''ORTH'', TStrs [''a'']), (''SPACY'', TBools [True]), (''ENT_IOB'', TStrs [''X''])] []
   = Inr ([''ENT_IOB''], [[9]])"
  by (simp add: tok_column_def annot2array_def asarray_T_def small_vocab_def table_add_def
      small_table_def)

section \<open>Properties of the Example operations\<close>


lemma isspace_blank: "isspace '' ''"
  by (simp add: isspace_def)

lemma get_aligned_new_loop_spec:
  assumes "get_aligned_new_loop px i2j gv i c2g = Inr out"
  shows "length out = length c2g \<and>
    (\<forall>k<length c2g. out ! k =
       (if isspace (orth (px ! (i + k))) then None
        else case c2g ! k of
               Some j \<Rightarrow> Some (gv ! j)
             | None \<Rightarrow> (case map_of i2j (i + k) of Some j \<Rightarrow> Some (gv ! j) | None \<Rightarrow> None)))"
  using assms
proof (induction c2g arbitrary: i out)
  case Nil
  then show ?case by simp
next
  case (Cons g rest)
  from Cons.prems obtain v out' where
    v: "(if isspace (orth (px ! i)) then Inr None
         else case g of
                None \<Rightarrow> (case map_of i2j i of
                            Some j \<Rightarrow> map_sum id Some (getitem gv j) | None \<Rightarrow> Inr None)
              | Some j \<Rightarrow> map_sum id Some (getitem gv j)) = Inr v"
    and r: "get_aligned_new_loop px i2j gv (Suc i) rest = Inr out'"
    and o: "out = v # out'"
    by (auto split: if_splits sum.splits)
  have ih: "length out' = length rest \<and>
    (\<forall>k<length rest. out' ! k =
       (if isspace (orth (px ! (Suc i + k))) then None
        else case rest ! k of
               Some j \<Rightarrow> Some (gv ! j)
             | None \<Rightarrow> (case map_of i2j (Suc i + k) of Some j \<Rightarrow> Some (gv ! j) | None \<Rightarrow> None)))"
    using Cons.IH[OF r] .
  have v0: "v = (if isspace (orth (px ! i)) then None
        else case g of
               Some j \<Rightarrow> Some (gv ! j)
             | None \<Rightarrow> (case map_of i2j i of Some j \<Rightarrow> Some (gv ! j) | None \<Rightarrow> None))"
    using v by (auto simp: getitem_def split: if_splits option.splits)
  show ?case
  proof (intro conjI allI impI)
    show "length out = length (g # rest)" using o ih by simp
  next
    fix k assume k: "k < length (g # rest)"
    show "out ! k =
       (if isspace (orth (px ! (i + k))) then None
        else case (g # rest) ! k of
               Some j \<Rightarrow> Some (gv ! j)
             | None \<Rightarrow> (case map_of i2j (i + k) of Some j \<Rightarrow> Some (gv ! j) | None \<Rightarrow> None))"
    proof (cases k)
      case 0
      have "out ! 0 = v" using o by simp
      then show ?thesis unfolding 0 using v0 by (simp cong: option.case_cong)
    next
      case (Suc k')
      then have k': "k' < length rest" using k by simp
      have "out ! k = out' ! k'" using o Suc by simp
      then show ?thesis unfolding Suc using ih k' by (simp cong: option.case_cong)
    qed
  qed
qed

lemma get_aligned_new_none_iff:
  assumes "get_aligned_new a e field = Inr out" and "i < length (cand_to_gold a)"
  shows "(out ! i = None) =
           (isspace (orth (tokens (predicted e) ! i))
            \<or> (cand_to_gold a ! i = None \<and> map_of (i2j_multi a) i = None))"
  using get_aligned_new_loop_spec[OF assms(1)[unfolded get_aligned_new_def]] assms(2)
  by (auto split: option.splits)

text \<open>
  C1. \<^verbatim>\<open>Example.get_aligned\<close> of \<^verbatim>\<open>src/unnamed/part_000\<close> on a whitespace-only predicted
  token with a one-to-one partner: the \<^verbatim>\<open>None\<close> written by the whitespace test is
  overwritten by the reference value, where \<^verbatim>\<open>NewExample.get_aligned\<close> of
  \<^verbatim>\<open>src/spacy/gold/new_example.pyx\<close> returns \<^verbatim>\<open>None\<close>.
\<close>

theorem get_aligned_whitespace_overwritten:
  "isspace (orth (mk_token '' '' 5))
   \<and> get_aligned \<lparr>cand_to_gold = [Some 0], gold_to_cand = [Some 0], i2j_multi = [], j2i_multi = []\<rparr>
        \<lparr>predicted = mk_doc [mk_token '' '' 0], reference = mk_doc [mk_token '' '' 5],
         cached_alignment = None\<rparr> ''TAG'' = Inr [Some 5]
   \<and> get_aligned_new \<lparr>cand_to_gold = [Some 0], gold_to_cand = [Some 0], i2j_multi = [], j2i_multi = []\<rparr>
        \<lparr>predicted = mk_doc [mk_token '' '' 0], reference = mk_doc [mk_token '' '' 5],
         cached_alignment = None\<rparr> ''TAG'' = Inr [None]"
  by (simp add: get_aligned_def get_aligned_new_def mk_doc_def mk_token_def to_array_def
      isspace_def getitem_def)

text \<open>
  C8. For an Example whose reference document has no tokens and whose alignment is not yet
  cached, reading the \<^verbatim>\<open>alignment\<close> property calls the \<^verbatim>\<open>Alignment\<close> constructor on the
  predicted words twice over (never on an empty gold list), returns what it returns and
  stores it; every later read returns the stored alignment without calling a constructor.
\<close>

theorem alignment_empty_reference:
  assumes "tokens (reference e) = []" and "cached_alignment e = None"
  shows "alignment_property Alignment e =
           (case Alignment (map orth (tokens (predicted e))) (map orth (tokens (predicted e))) of
              Inl err \<Rightarrow> Inl err
            | Inr a \<Rightarrow> Inr (a, e\<lparr>cached_alignment := Some a\<rparr>))
         \<and> alignment_property Alignment' (e\<lparr>cached_alignment := Some a'\<rparr>)
             = Inr (a', e\<lparr>cached_alignment := Some a'\<rparr>)"
  using assms by (simp add: alignment_property_def Let_def)

theorem alignment_empty_reference_witness:
  "alignment_property one_to_one
     \<lparr>predicted = mk_doc [mk_token ''a'' 0], reference = mk_doc [], cached_alignment = None\<rparr>
   = Inr (\<lparr>cand_to_gold = [Some 0], gold_to_cand = [Some 0], i2j_multi = [], j2i_multi = []\<rparr>,
          \<lparr>predicted = mk_doc [mk_token ''a'' 0], reference = mk_doc [],
           cached_alignment =
             Some \<lparr>cand_to_gold = [Some 0], gold_to_cand = [Some 0], i2j_multi = [], j2i_multi = []\<rparr>\<rparr>)"
  using alignment_empty_reference[of
      "\<lparr>predicted = mk_doc [mk_token ''a'' 0], reference = mk_doc [], cached_alignment = None\<rparr>"
      one_to_one one_to_one]
  by (simp add: mk_doc_def mk_token_def one_to_one_def)

section \<open>Properties of \<^verbatim>\<open>split_sents\<close>\<close>


lemma index_of_SomeD:
  "index_of xs v = Some n \<Longrightarrow>
     n < length xs \<and> xs ! n = v \<and> filter (\<lambda>u. u = v) (take n xs) = []"
proof (induction xs arbitrary: n)
  case Nil
  then show ?case by simp
next
  case (Cons u xs)
  show ?case
  proof (cases "u = v")
    case True
    then show ?thesis using Cons.prems by simp
  next
    case False
    then obtain m where m: "index_of xs v = Some m" "n = Suc m" using Cons.prems by auto
    then show ?thesis using Cons.IH[OF m(1)] False by simp
  qed
qed

lemma index_from_SomeD:
  assumes "index_from xs v (Suc s) = Some pe"
  shows "s < pe \<and> pe < length xs \<and> xs ! pe = v
         \<and> filter (\<lambda>u. u = v) (drop (Suc s) xs) = v # filter (\<lambda>u. u = v) (drop (Suc pe) xs)"
proof -
  from assms obtain n where n: "index_of (drop (Suc s) xs) v = Some n" and pe: "pe = Suc s + n"
    by (auto simp: index_from_def)
  let ?d = "drop (Suc s) xs"
  from index_of_SomeD[OF n] have
    a: "n < length ?d" and b: "?d ! n = v" and c: "filter (\<lambda>u. u = v) (take n ?d) = []"
    by simp_all
  have "?d = take n ?d @ ?d ! n # drop (Suc n) ?d" using a by (rule id_take_nth_drop)
  then have "filter (\<lambda>u. u = v) ?d = filter (\<lambda>u. u = v) (take n ?d @ ?d ! n # drop (Suc n) ?d)"
    by simp
  also have "\<dots> = v # filter (\<lambda>u. u = v) (drop (Suc n) ?d)" using b c by simp
  also have "drop (Suc n) ?d = drop (Suc pe) xs" using pe by (simp add: add.commute)
  finally have f: "filter (\<lambda>u. u = v) ?d = v # filter (\<lambda>u. u = v) (drop (Suc pe) xs)" .
  have "pe < length xs" using a pe by simp
  moreover have "xs ! pe = v" using a b pe by simp
  ultimately show ?thesis using f pe by simp
qed

lemma slice_append: "a \<le> b \<Longrightarrow> b \<le> c \<Longrightarrow> slice xs a b @ slice xs b c = slice xs a c"
proof -
  assume ab: "a \<le> b" and bc: "b \<le> c"
  have "take (c - a) (drop a xs) = take (b - a) (drop a xs) @ take (c - b) (drop (b - a) (drop a xs))"
    using ab bc take_add[of "b - a" "c - b" "drop a xs"] by simp
  then show ?thesis using ab by (simp add: slice_def)
qed

lemma split_loop_prefix:
  assumes "split_loop ss px py start sents0 = Inr out"
  shows "\<exists>pe. start \<le> pe \<and> (sents0 \<noteq> [] \<longrightarrow> pe < length ss \<and> ss ! pe = Some 1)
           \<and> (sents0 = [] \<longrightarrow> pe = start)
           \<and> concat (map fst out) = slice px start pe
           \<and> length out = length sents0
           \<and> markers_after ss start = length sents0 + markers_after ss pe"
  using assms
proof (induction sents0 arbitrary: start out)
  case Nil
  then show ?case by (auto simp: slice_def)
next
  case (Cons sent rest)
  from Cons.prems obtain pe out' where
    i: "index_from ss (Some 1) (Suc start) = Some pe"
    and r: "split_loop ss px py pe rest = Inr out'"
    and o: "out = (slice px start pe, slice py (fst sent) (snd sent)) # out'"
    by (auto split: option.splits sum.splits)
  from index_from_SomeD[OF i] have
    lt: "start < pe" and len: "pe < length ss" and m: "ss ! pe = Some 1"
    and f: "filter (\<lambda>u. u = Some 1) (drop (Suc start) ss)
            = Some 1 # filter (\<lambda>u. u = Some 1) (drop (Suc pe) ss)"
    by simp_all
  from Cons.IH[OF r] obtain pe' where
    p: "pe \<le> pe'" "rest \<noteq> [] \<longrightarrow> pe' < length ss \<and> ss ! pe' = Some 1"
       "rest = [] \<longrightarrow> pe' = pe"
       "concat (map fst out') = slice px pe pe'"
       "length out' = length rest"
       "markers_after ss pe = length rest + markers_after ss pe'"
    by blast
  have c: "concat (map fst out) = slice px start pe'"
    using o p(1,4) lt slice_append[of start pe pe' px] by simp
  have k: "markers_after ss start = length (sent # rest) + markers_after ss pe'"
    using f p(6) by (simp add: markers_after_def)
  have e: "pe' < length ss \<and> ss ! pe' = Some 1"
    using p(2,3) len m by (cases "rest = []") auto
  show ?case
    using c k e lt p(1,5) o by (intro exI[of _ pe']) auto
qed



lemma get_aligned_loop_length:
  "get_aligned_loop px i2j gv out0 i c2g = Inr out \<Longrightarrow> length out = length out0"
proof (induction c2g arbitrary: out0 i)
  case Nil
  then show ?case by simp
next
  case (Cons g rest)
  from Cons.prems obtain v where
    "get_aligned_loop px i2j gv
       ((if isspace (orth (px ! i)) then out0[i := None] else out0)[i := v]) (Suc i) rest = Inr out"
    by (auto simp: Let_def split: if_splits sum.splits)
  from Cons.IH[OF this] show ?case by (simp split: if_splits)
qed

lemma get_aligned_length:
  "get_aligned a e field = Inr out \<Longrightarrow> length out = length (tokens (predicted e))"
  by (auto simp: get_aligned_def dest: get_aligned_loop_length)

lemma split_loop_error: "split_loop ss px py start sents0 = Inl err \<Longrightarrow> err = NotFoundError"
  by (induction sents0 arbitrary: start) (auto split: option.splits sum.splits)

lemma markers_after_last:
  assumes "pe \<le> length ss"
  shows "(markers_after (ss @ [Some 1]) pe = 0) = (pe = length ss)"
proof (cases "pe = length ss")
  case True
  then show ?thesis by (simp add: markers_after_def)
next
  case False
  then have "Suc pe \<le> length ss" using assms by simp
  then have "drop (Suc pe) (ss @ [Some 1]) = drop (Suc pe) ss @ [Some 1]" by simp
  then show ?thesis using False by (simp add: markers_after_def)
qed

text \<open>
  C2, as amended. When the reference is sentenced and \<^verbatim>\<open>split_sents\<close> returns, the
  concatenation of the predicted slices is a prefix of the predicted tokens, and it is the
  whole predicted token sequence exactly when the reference has as many sentences as the
  aligned \<^verbatim>\<open>SENT_START\<close> column, with the virtual marker appended, has entries equal to 1
  after position 0 (for a reference without sentences: exactly when there is no predicted
  token).
\<close>

theorem split_sents_concat:
  assumes "is_sentenced (reference e)"
    and "get_aligned a e ''SENT_START'' = Inr sent_starts"
    and "split_sents a e = Inr out"
  shows "(\<exists>pe \<le> length (tokens (predicted e)).
            concat (map fst out) = take pe (tokens (predicted e)))
         \<and> (concat (map fst out) = tokens (predicted e)) =
             (if sents (reference e) = [] then tokens (predicted e) = []
              else markers_after (sent_starts @ [Some 1]) 0 = length (sents (reference e)))"
proof -
  let ?px = "tokens (predicted e)" and ?ss = "sent_starts @ [Some 1]"
  have len: "length sent_starts = length ?px" using assms(2) by (rule get_aligned_length)
  have loop: "split_loop ?ss ?px (tokens (reference e)) 0 (sents (reference e)) = Inr out"
    using assms by (simp add: split_sents_def)
  from split_loop_prefix[OF loop] obtain pe where
    p: "sents (reference e) \<noteq> [] \<longrightarrow> pe < length ?ss \<and> ?ss ! pe = Some 1"
       "sents (reference e) = [] \<longrightarrow> pe = 0"
       "concat (map fst out) = slice ?px 0 pe"
       "markers_after ?ss 0 = length (sents (reference e)) + markers_after ?ss pe"
    by blast
  have le: "pe \<le> length ?px" using p(1,2) len by (cases "sents (reference e) = []") auto
  have c: "concat (map fst out) = take pe ?px" using p(3) by (simp add: slice_def)
  have full: "(take pe ?px = ?px) = (pe = length ?px)" using le
    by (metis length_take min.absorb2 take_all order_refl)
  have A: "\<exists>pe \<le> length ?px. concat (map fst out) = take pe ?px" using c le by blast
  have B: "(concat (map fst out) = ?px) =
             (if sents (reference e) = [] then ?px = []
              else markers_after ?ss 0 = length (sents (reference e)))"
  proof (cases "sents (reference e) = []")
    case True
    then have e0: "concat (map fst out) = []" using c p(2) by simp
    have "(concat (map fst out) = ?px) = (?px = [])" unfolding e0 by auto
    then show ?thesis using True by (simp only: if_True simp_thms)
  next
    case False
    have "(markers_after ?ss pe = 0) = (pe = length sent_starts)"
      using le len by (simp add: markers_after_last)
    then have "(pe = length ?px) = (markers_after ?ss 0 = length (sents (reference e)))"
      using p(4) len by auto
    then show ?thesis using False c full by (simp only: if_False simp_thms)
  qed
  show ?thesis using A B by (rule conjI)
qed

theorem split_sents_concat_witness:
  "split_sents
     \<lparr>cand_to_gold = [Some 0, Some 1], gold_to_cand = [Some 0, Some 1], i2j_multi = [], j2i_multi = []\<rparr>
     \<lparr>predicted = mk_doc [mk_token ''a'' 0, mk_token ''b'' 0],
      reference = \<lparr>tokens = [mk_token ''a'' 1, mk_token ''b'' 1], is_sentenced = True,
                   sents = [(0, 1), (1, 2)], ents = [], cats = []\<rparr>,
      cached_alignment = None\<rparr>
   = Inr [([mk_token ''a'' 0], [mk_token ''a'' 1]), ([mk_token ''b'' 0], [mk_token ''b'' 1])]
   \<and> concat (map fst [([mk_token ''a'' 0], [mk_token ''a'' 1]), ([mk_token ''b'' 0], [mk_token ''b'' 1])])
       = [mk_token ''a'' 0, mk_token ''b'' 0]"
proof -
  let ?a = "\<lparr>cand_to_gold = [Some 0, Some 1], gold_to_cand = [Some 0, Some 1],
             i2j_multi = [], j2i_multi = []\<rparr>"
  let ?e = "\<lparr>predicted = mk_doc [mk_token ''a'' 0, mk_token ''b'' 0],
      reference = \<lparr>tokens = [mk_token ''a'' 1, mk_token ''b'' 1], is_sentenced = True,
                   sents = [(0, 1), (1, 2)], ents = [], cats = []\<rparr>,
      cached_alignment = None\<rparr>"
  have h1: "is_sentenced (reference ?e)" by simp
  have h2: "get_aligned ?a ?e ''SENT_START'' = Inr [Some 1, Some 1]"
    by (simp add: get_aligned_def mk_doc_def to_array_def getitem_def isspace_def mk_token_def)
  have h3: "split_sents ?a ?e
     = Inr [([mk_token ''a'' 0], [mk_token ''a'' 1]), ([mk_token ''b'' 0], [mk_token ''b'' 1])]"
    unfolding split_sents_def h2 by (simp add: mk_doc_def index_from_def slice_def)
  have "markers_after ([Some 1, Some 1] @ [Some 1]) 0 = length (sents (reference ?e))"
    by (simp add: markers_after_def)
  then have "concat (map fst [([mk_token ''a'' 0], [mk_token ''a'' 1]),
                               ([mk_token ''b'' 0], [mk_token ''b'' 1])])
             = tokens (predicted ?e)"
    using split_sents_concat[OF h1 h2 h3] by simp
  then show ?thesis using h3 by (simp add: mk_doc_def)
qed

text \<open>
  C2 as stated fails when two predicted tokens are aligned through the multi-map to one
  reference token that starts a sentence: both get \<^verbatim>\<open>SENT_START = 1\<close>, the only reference
  sentence ends at the second of them, and the second predicted token is in no slice.
\<close>

theorem split_sents_drops_token:
  "split_sents
     \<lparr>cand_to_gold = [None, None], gold_to_cand = [None], i2j_multi = [(0, 0), (1, 0)], j2i_multi = []\<rparr>
     \<lparr>predicted = mk_doc [mk_token ''U.S.'' 0, mk_token ''President'' 0],
      reference = mk_doc [mk_token ''U.S. President'' 1], cached_alignment = None\<rparr>
   = Inr [([mk_token ''U.S.'' 0], [mk_token ''U.S. President'' 1])]
   \<and> concat (map fst [([mk_token ''U.S.'' 0], [mk_token ''U.S. President'' 1])])
       \<noteq> [mk_token ''U.S.'' 0, mk_token ''President'' 0]"
  by (simp add: split_sents_def get_aligned_def mk_doc_def to_array_def getitem_def
      index_from_def slice_def isspace_def mk_token_def)

text \<open>
  The sibling \<^verbatim>\<open>NewExample.split_sents\<close> ends each predicted slice one token late: with
  two sentences of one token each, the second token is in both slices.
\<close>

lemma split_sents_new_duplicates:
  "split_sents_new
     \<lparr>predicted = mk_doc [mk_token ''a'' 0, mk_token ''b'' 0],
      reference = \<lparr>tokens = [mk_token ''a'' 1, mk_token ''b'' 1], is_sentenced = True,
                   sents = [(0, 1), (1, 2)], ents = [], cats = []\<rparr>,
      cached_alignment = None\<rparr>
   = Inr [([mk_token ''a'' 0, mk_token ''b'' 0], [mk_token ''a'' 1]),
          ([mk_token ''b'' 0], [mk_token ''b'' 1])]"
  by (simp add: split_sents_new_def mk_doc_def slice_def mk_token_def)

section \<open>Properties of \<^verbatim>\<open>_fix_legacy_dict_data\<close>\<close>


lemma hoist_skip_falsy:
  "\<not> py_truthy v \<Longrightarrow>
   hoist td dd (pre @ (key, v) # post) = hoist td dd (pre @ post)"
proof (induction pre arbitrary: td dd)
  case Nil
  then show ?case by (simp add: hoist_item_def)
next
  case (Cons kv pre)
  obtain k0 v0 where kv: "kv = (k0, v0)" by (cases kv)
  show ?case
  proof (cases "hoist_item td dd k0 v0")
    case (Inl err)
    then show ?thesis using kv by simp
  next
    case (Inr p)
    then show ?thesis using kv Cons by (cases p) simp
  qed
qed

lemma map_of_skip:
  "k \<noteq> key \<Longrightarrow> map_of (pre @ (key, v) # post) k = map_of (pre @ post) k"
  by (induction pre) auto

lemma keys_dict_set: "fst ` set (dict_set kvs k v) = insert k (fst ` set kvs)"
  by (induction kvs k v rule: dict_set.induct) auto

lemma hoist_item_dicts:
  "\<exists>td' dd'. hoist_item (PDict td) (PDict dd) k v = Inr (PDict td', PDict dd')
     \<and> fst ` set td \<subseteq> fst ` set td'
     \<and> (py_truthy v \<and> token_level_key k \<longrightarrow> k \<in> fst ` set td')"
proof (cases "py_truthy v \<and> token_level_key k")
  case True
  then have "hoist_item (PDict td) (PDict dd) k v = Inr (PDict (dict_set td k v), PDict dd)"
    by (simp add: hoist_item_def token_level_key_def)
  then show ?thesis by (simp add: keys_dict_set subset_insertI)
next
  case False
  then have "\<exists>dd'. hoist_item (PDict td) (PDict dd) k v = Inr (PDict td, PDict dd')"
    by (auto simp: hoist_item_def token_level_key_def)
  then show ?thesis using False by blast
qed

lemma hoist_dicts:
  "\<exists>td' dd'. hoist (PDict td) (PDict dd) ed = Inr (PDict td', PDict dd')
     \<and> fst ` set td \<subseteq> fst ` set td'
     \<and> (\<forall>kv \<in> set ed. py_truthy (snd kv) \<and> token_level_key (fst kv)
          \<longrightarrow> fst kv \<in> fst ` set td')"
proof (induction ed arbitrary: td dd)
  case Nil
  then show ?case by simp
next
  case (Cons kv ed)
  obtain k v where kv: "kv = (k, v)" by (cases kv)
  from hoist_item_dicts[of td dd k v] obtain td1 dd1 where
    s: "hoist_item (PDict td) (PDict dd) k v = Inr (PDict td1, PDict dd1)"
       "fst ` set td \<subseteq> fst ` set td1"
       "py_truthy v \<and> token_level_key k \<longrightarrow> k \<in> fst ` set td1"
    by blast
  from Cons.IH[of td1 dd1] obtain td' dd' where
    h: "hoist (PDict td1) (PDict dd1) ed = Inr (PDict td', PDict dd')"
       "fst ` set td1 \<subseteq> fst ` set td'"
       "\<forall>kv \<in> set ed. py_truthy (snd kv) \<and> token_level_key (fst kv) \<longrightarrow> fst kv \<in> fst ` set td'"
    by blast
  have "hoist (PDict td) (PDict dd) (kv # ed) = Inr (PDict td', PDict dd')"
    using kv s(1) h(1) by simp
  moreover have "fst ` set td \<subseteq> fst ` set td'" using s(2) h(2) by blast
  moreover have "\<forall>kv' \<in> set (kv # ed). py_truthy (snd kv') \<and> token_level_key (fst kv')
                   \<longrightarrow> fst kv' \<in> fst ` set td'"
  proof
    fix kv' assume "kv' \<in> set (kv # ed)"
    then consider "kv' = kv" | "kv' \<in> set ed" by auto
    then show "py_truthy (snd kv') \<and> token_level_key (fst kv') \<longrightarrow> fst kv' \<in> fst ` set td'"
    proof cases
      case 1
      then have "fst kv' = k" "snd kv' = v" using kv by simp_all
      then show ?thesis using s(3) h(2) by blast
    next
      case 2
      then show ?thesis using h(3) by blast
    qed
  qed
  ultimately show ?case by blast
qed




lemma remap_loop_unknown:
  "k \<in> fst ` set its \<Longrightarrow> k \<notin> {''text'', ''ids'', ''brackets''} \<Longrightarrow> map_of remapping k = None \<Longrightarrow>
   \<exists>k'. remap_loop acc its = Inl (UnknownKeyError k')"
proof (induction its arbitrary: acc)
  case Nil
  then show ?case by simp
next
  case (Cons kv its)
  obtain k0 v0 where kv: "kv = (k0, v0)" by (cases kv)
  have step: "remap_loop acc (kv # its) =
     (if k0 \<in> {''text'', ''ids'', ''brackets''} then remap_loop acc its
      else (case map_of remapping k0 of
              Some key' \<Rightarrow> remap_loop (dict_set acc key' v0) its
            | None \<Rightarrow> Inl (UnknownKeyError k0)))"
    unfolding kv by (rule remap_loop.simps(2))
  show ?case
  proof (cases "k0 = k")
    case True
    have "remap_loop acc (kv # its) = Inl (UnknownKeyError k)"
      unfolding step True using Cons.prems(2,3) by (simp only: if_False option.case)
    then show ?thesis by blast
  next
    case False
    then have "k \<in> fst ` set its" using Cons.prems(1) kv by auto
    then have ih: "\<And>acc. \<exists>k'. remap_loop acc its = Inl (UnknownKeyError k')"
      using Cons.IH Cons.prems(2,3) by blast
    show ?thesis
    proof (cases "k0 \<in> {''text'', ''ids'', ''brackets''}")
      case True
      then show ?thesis unfolding step using ih[of acc] by (simp only: if_True)
    next
      case out: False
      show ?thesis
      proof (cases "map_of remapping k0")
        case None
        then show ?thesis unfolding step using out by (simp only: if_False option.case) blast
      next
        case (Some k1)
        then show ?thesis unfolding step using out ih[of "dict_set acc k1 v0"]
          by (simp only: if_False option.case)
      qed
    qed
  qed
qed



text \<open>
  C9. In \<^verbatim>\<open>_fix_legacy_dict_data\<close> of \<^verbatim>\<open>src/unnamed/part_000\<close> a top-level item with a
  falsy value changes nothing: the hoisting loop runs as if the item were absent, whatever
  its key, and the result of the normaliser is the one for the bundle without the item
  (for every key but the four that are also read by \<^verbatim>\<open>get\<close>: \<^verbatim>\<open>token_annotation\<close>,
  \<^verbatim>\<open>doc_annotation\<close>, \<^verbatim>\<open>text\<close> and \<^verbatim>\<open>raw\<close>), so it is neither copied nor rejected;
  the same item with a truthy value and an unknown key makes the normaliser raise the
  unknown-key error (when the two annotation entries are dicts or absent).
\<close>

theorem fix_legacy_falsy_discarded:
  "(\<not> py_truthy v \<longrightarrow>
      hoist token_dict doc_dict (pre @ (key, v) # post) = hoist token_dict doc_dict (pre @ post))
   \<and> (\<not> py_truthy v \<and> key \<notin> {''token_annotation'', ''doc_annotation'', ''text'', ''raw''}
      \<longrightarrow> fix_legacy_dict_data (pre @ (key, v) # post) = fix_legacy_dict_data (pre @ post))
   \<and> (py_truthy v \<and> unknown_key key
        \<and> (\<forall>w. map_of (pre @ (key, v) # post) ''token_annotation'' = Some w \<longrightarrow> (\<exists>kvs. w = PDict kvs))
        \<and> (\<forall>w. map_of (pre @ (key, v) # post) ''doc_annotation'' = Some w \<longrightarrow> (\<exists>kvs. w = PDict kvs))
      \<longrightarrow> (\<exists>k. fix_legacy_dict_data (pre @ (key, v) # post) = Inl (UnknownKeyError k)))"
proof (intro conjI impI)
  assume "\<not> py_truthy v"
  then show "hoist token_dict doc_dict (pre @ (key, v) # post) = hoist token_dict doc_dict (pre @ post)"
    by (rule hoist_skip_falsy)
next
  assume a: "\<not> py_truthy v \<and> key \<notin> {''token_annotation'', ''doc_annotation'', ''text'', ''raw''}"
  have m: "\<And>k. k \<noteq> key \<Longrightarrow> map_of (pre @ (key, v) # post) k = map_of (pre @ post) k"
    by (rule map_of_skip)
  have k1: "''token_annotation'' \<noteq> key" and k2: "''doc_annotation'' \<noteq> key"
    and k3: "''text'' \<noteq> key" and k4: "''raw'' \<noteq> key"
    using a by blast+
  have nt: "\<not> py_truthy v" using a by (rule conjunct1)
  have h: "\<And>td dd. hoist td dd (pre @ (key, v) # post) = hoist td dd (pre @ post)"
    by (rule hoist_skip_falsy[OF nt])
  show "fix_legacy_dict_data (pre @ (key, v) # post) = fix_legacy_dict_data (pre @ post)"
    unfolding fix_legacy_dict_data_def m[OF k1] m[OF k2] m[OF k3] m[OF k4] h by (rule refl)
next
  let ?ed = "pre @ (key, v) # post"
  let ?t0 = "case map_of ?ed ''token_annotation'' of None \<Rightarrow> PDict [] | Some w \<Rightarrow> w"
  let ?d0 = "case map_of ?ed ''doc_annotation'' of None \<Rightarrow> PDict [] | Some w \<Rightarrow> w"
  assume a: "py_truthy v \<and> unknown_key key
        \<and> (\<forall>w. map_of ?ed ''token_annotation'' = Some w \<longrightarrow> (\<exists>kvs. w = PDict kvs))
        \<and> (\<forall>w. map_of ?ed ''doc_annotation'' = Some w \<longrightarrow> (\<exists>kvs. w = PDict kvs))"
  have "\<exists>t0. ?t0 = PDict t0"
  proof (cases "map_of ?ed ''token_annotation''")
    case None
    then have "?t0 = PDict []" by (simp only: option.case)
    then show ?thesis by blast
  next
    case (Some w)
    then obtain kvs where "w = PDict kvs" using a by blast
    then have "?t0 = PDict kvs" using Some by (simp only: option.case)
    then show ?thesis by blast
  qed
  then obtain t0 where t0: "?t0 = PDict t0" by blast
  have "\<exists>d0. ?d0 = PDict d0"
  proof (cases "map_of ?ed ''doc_annotation''")
    case None
    then have "?d0 = PDict []" by (simp only: option.case)
    then show ?thesis by blast
  next
    case (Some w)
    then obtain kvs where "w = PDict kvs" using a by blast
    then have "?d0 = PDict kvs" using Some by (simp only: option.case)
    then show ?thesis by blast
  qed
  then obtain d0 where d0: "?d0 = PDict d0" by blast
  from hoist_dicts[of t0 d0 ?ed] obtain td' dd' where
    h: "hoist (PDict t0) (PDict d0) ?ed = Inr (PDict td', PDict dd')"
    and ks: "\<forall>kv \<in> set ?ed. py_truthy (snd kv) \<and> token_level_key (fst kv) \<longrightarrow> fst kv \<in> fst ` set td'"
    by blast
  have tl: "token_level_key key" and ni: "key \<notin> {''text'', ''ids'', ''brackets''}"
    and mn: "map_of remapping key = None"
    using a unfolding unknown_key_def by blast+
  have "(key, v) \<in> set ?ed" by simp
  then have "key \<in> fst ` set td'" using ks a tl by force
  from remap_loop_unknown[OF this ni mn, of "[]"] obtain k' where
    r: "remap_loop [] td' = Inl (UnknownKeyError k')" by blast
  have "fix_legacy_dict_data ?ed = Inl (UnknownKeyError k')"
    unfolding fix_legacy_dict_data_def Let_def t0 d0 h by (simp add: r)
  then show "\<exists>k. fix_legacy_dict_data ?ed = Inl (UnknownKeyError k)" by blast
qed

theorem fix_legacy_falsy_discarded_witness:
  "fix_legacy_dict_data [(''words'', PList [PStr ''a'']), (''foo'', PList [])]
     = fix_legacy_dict_data [(''words'', PList [PStr ''a''])]
   \<and> (\<exists>k. fix_legacy_dict_data [(''words'', PList [PStr ''a'']), (''foo'', PList [PInt 1])]
          = Inl (UnknownKeyError k))"
proof -
  note t1 = fix_legacy_falsy_discarded[where v = "PList []" and key = "''foo''"
      and pre = "[(''words'', PList [PStr ''a''])]" and post = "[]",
      THEN conjunct2, THEN conjunct1]
  note t2 = fix_legacy_falsy_discarded[where v = "PList [PInt 1]" and key = "''foo''"
      and pre = "[(''words'', PList [PStr ''a''])]" and post = "[]",
      THEN conjunct2, THEN conjunct2]
  have u: "unknown_key ''foo''"
    by (simp add: unknown_key_def token_level_key_def remapping_def)
  have c1: "fix_legacy_dict_data [(''words'', PList [PStr ''a'']), (''foo'', PList [])]
     = fix_legacy_dict_data [(''words'', PList [PStr ''a''])]"
    using t1 by simp
  have c2: "\<exists>k. fix_legacy_dict_data [(''words'', PList [PStr ''a'']), (''foo'', PList [PInt 1])]
          = Inl (UnknownKeyError k)"
    using t2 u by simp
  show ?thesis using c1 c2 by (rule conjI)
qed

section \<open>Properties of \<^verbatim>\<open>from_dict\<close> and \<^verbatim>\<open>to_dict\<close>\<close>











































lemma map_PStr_eq: "map PStr a = map PStr b \<Longrightarrow> a = b"
  by (simp add: inj_on_def)






section \<open>Properties of \<^verbatim>\<open>get_aligned_ner\<close>\<close>


lemma marked_Cons:
  "marked g2c i (t # ts) c = ((ent_iob t = 0 \<and> g2c ! i = Some c) \<or> marked g2c (Suc i) ts c)"
proof
  assume "marked g2c i (t # ts) c"
  then obtain k where k: "k < length (t # ts)" "ent_iob ((t # ts) ! k) = 0" "g2c ! (i + k) = Some c"
    unfolding marked_def by blast
  show "(ent_iob t = 0 \<and> g2c ! i = Some c) \<or> marked g2c (Suc i) ts c"
  proof (cases k)
    case 0
    then show ?thesis using k by simp
  next
    case (Suc k')
    then have "k' < length ts \<and> ent_iob (ts ! k') = 0 \<and> g2c ! (Suc i + k') = Some c"
      using k by simp
    then show ?thesis unfolding marked_def by blast
  qed
next
  assume "(ent_iob t = 0 \<and> g2c ! i = Some c) \<or> marked g2c (Suc i) ts c"
  then show "marked g2c i (t # ts) c"
  proof
    assume "ent_iob t = 0 \<and> g2c ! i = Some c"
    then have "0 < length (t # ts) \<and> ent_iob ((t # ts) ! 0) = 0 \<and> g2c ! (i + 0) = Some c" by simp
    then show ?thesis unfolding marked_def by blast
  next
    assume "marked g2c (Suc i) ts c"
    then obtain k where "k < length ts" "ent_iob (ts ! k) = 0" "g2c ! (Suc i + k) = Some c"
      unfolding marked_def by blast
    then have "Suc k < length (t # ts) \<and> ent_iob ((t # ts) ! Suc k) = 0 \<and> g2c ! (i + Suc k) = Some c"
      by simp
    then show ?thesis unfolding marked_def by blast
  qed
qed

lemma mark_unknown_spec:
  assumes "mark_unknown g2c tags i ts = Inr out"
  shows "length out = length tags
    \<and> (\<forall>c. marked g2c i ts c \<longrightarrow> c < length out \<and> out ! c = None)
    \<and> (\<forall>c<length tags. \<not> marked g2c i ts c \<longrightarrow> out ! c = tags ! c)
    \<and> (\<forall>c<length tags. tags ! c = None \<longrightarrow> out ! c = None)"
  using assms
proof (induction ts arbitrary: tags i)
  case Nil
  then show ?case by (simp add: marked_def)
next
  case (Cons t ts)
  show ?case
  proof (cases "ent_iob t = 0 \<and> (\<exists>cand. g2c ! i = Some cand) \<and> i < length g2c")
    case False
    then have r: "mark_unknown g2c tags (Suc i) ts = Inr out"
      using Cons.prems by (auto simp: getitem_def split: if_splits option.splits)
    have m: "\<And>c. marked g2c i (t # ts) c = marked g2c (Suc i) ts c"
    proof -
      fix c
      have "\<not> (ent_iob t = 0 \<and> g2c ! i = Some c)"
        using False Cons.prems by (auto simp: getitem_def split: if_splits)
      then show "marked g2c i (t # ts) c = marked g2c (Suc i) ts c" by (auto simp: marked_Cons)
    qed
    show ?thesis unfolding m by (rule Cons.IH[OF r])
  next
    case True
    then obtain cand where cand: "g2c ! i = Some cand" and z: "ent_iob t = 0" and il: "i < length g2c"
      by blast
    have cl: "cand < length tags"
      using Cons.prems z cand il by (auto simp: getitem_def split: if_splits)
    have r: "mark_unknown g2c (tags[cand := None]) (Suc i) ts = Inr out"
      using Cons.prems z cand il cl by (simp add: getitem_def)
    note ih = Cons.IH[OF r]
    from ih have ih1: "length out = length tags" by simp
    from ih have ih2: "\<forall>c. marked g2c (Suc i) ts c \<longrightarrow> c < length out \<and> out ! c = None"
      by blast
    from ih have "\<forall>c<length (tags[cand := None]).
                    \<not> marked g2c (Suc i) ts c \<longrightarrow> out ! c = (tags[cand := None]) ! c"
      by blast
    then have ih3: "\<forall>c<length tags. \<not> marked g2c (Suc i) ts c \<longrightarrow> out ! c = (tags[cand := None]) ! c"
      by (simp only: length_list_update)
    from ih have "\<forall>c<length (tags[cand := None]). (tags[cand := None]) ! c = None \<longrightarrow> out ! c = None"
      by blast
    then have ih4: "\<forall>c<length tags. (tags[cand := None]) ! c = None \<longrightarrow> out ! c = None"
      by (simp only: length_list_update)
    have cn: "out ! cand = None" using ih4 cl by simp
    have m: "\<And>c. marked g2c i (t # ts) c = (c = cand \<or> marked g2c (Suc i) ts c)"
      using z cand by (auto simp: marked_Cons)
    have a: "\<forall>c. marked g2c i (t # ts) c \<longrightarrow> c < length out \<and> out ! c = None"
      using m ih2 cn cl ih1 by auto
    have b: "\<forall>c<length tags. \<not> marked g2c i (t # ts) c \<longrightarrow> out ! c = tags ! c"
      using m ih3 by auto
    have d: "\<forall>c<length tags. tags ! c = None \<longrightarrow> out ! c = None"
    proof (intro allI impI)
      fix c assume c: "c < length tags" "tags ! c = None"
      then have "(tags[cand := None]) ! c = None" by (cases "c = cand") auto
      then show "out ! c = None" using ih4 c by simp
    qed
    show ?thesis using ih1 a b d by blast
  qed
qed



lemma align_ent_dropped:
  assumes "getitem g2c (span_start y_ent) = Inr x_start"
    and "getitem_int g2c (int (span_end y_ent) - 1) = Inr x_end"
    and "x_start = None \<or> x_end = None"
    and "str_count (doc_text xd) (span_text y_ent) \<noteq> 1"
  shows "align_ent c g2c xd y_ent = Inr None"
  using assms by (auto simp: align_ent_def split: option.splits)

text \<open>
  C3, as amended. The tags that \<^verbatim>\<open>get_aligned_ner\<close> returns are the tags that the tag
  conversion gives for the entities that could be mapped, except that every predicted
  token that \<^verbatim>\<open>gold_to_cand\<close> pairs with a reference token without entity annotation
  (\<^verbatim>\<open>ent_iob == 0\<close>) is \<^verbatim>\<open>None\<close>; no other token is \<^verbatim>\<open>None\<close>. A reference entity one
  of whose ends has no partner and whose text does not occur exactly once in the predicted
  text is not among the mapped entities, so its tokens get the tag the conversion gives
  without it.
\<close>

theorem get_aligned_ner_unknown:
  assumes "get_aligned_ner c a e = Inr x_tags"
  shows "\<exists>x_ents tags.
           align_ents c (gold_to_cand a) (predicted e) (ents (reference e)) = Inr x_ents
         \<and> biluo_tags_from_offsets c (predicted e)
              (map (\<lambda>x_ent. (start_char x_ent, end_char x_ent, label x_ent)) x_ents) = Inr tags
         \<and> length x_tags = length tags
         \<and> (\<forall>j i. j < length (tokens (reference e)) \<and> ent_iob (tokens (reference e) ! j) = 0
               \<and> gold_to_cand a ! j = Some i \<longrightarrow> i < length x_tags)
         \<and> (\<forall>i<length x_tags.
               x_tags ! i =
                 (if \<exists>j<length (tokens (reference e)). ent_iob (tokens (reference e) ! j) = 0
                        \<and> gold_to_cand a ! j = Some i
                  then None else Some (tags ! i)))
         \<and> (\<forall>(y_ent :: span) x_start x_end.
               getitem (gold_to_cand a) (span_start y_ent) = Inr x_start
               \<and> getitem_int (gold_to_cand a) (int (span_end y_ent) - 1) = Inr x_end
               \<and> (x_start = None \<or> x_end = None)
               \<and> str_count (doc_text (predicted e)) (span_text y_ent) \<noteq> 1
               \<longrightarrow> align_ents c (gold_to_cand a) (predicted e) [y_ent] = Inr [])"
proof -
  let ?ts = "tokens (reference e)" and ?g = "gold_to_cand a"
  from assms obtain x_ents tags where
    al: "align_ents c ?g (predicted e) (ents (reference e)) = Inr x_ents"
    and bt: "biluo_tags_from_offsets c (predicted e)
              (map (\<lambda>x_ent. (start_char x_ent, end_char x_ent, label x_ent)) x_ents) = Inr tags"
    and m: "mark_unknown ?g (map Some tags) 0 ?ts = Inr x_tags"
    by (auto simp: get_aligned_ner_def split: sum.splits)
  note s = mark_unknown_spec[OF m]
  have mk: "\<And>i. marked ?g 0 ?ts i =
             (\<exists>j<length ?ts. ent_iob (?ts ! j) = 0 \<and> ?g ! j = Some i)"
    by (simp add: marked_def)
  have len: "length x_tags = length tags" using s by simp
  have a1: "\<forall>j i. j < length ?ts \<and> ent_iob (?ts ! j) = 0 \<and> ?g ! j = Some i
              \<longrightarrow> i < length x_tags"
    using s mk by blast
  have a2: "\<forall>i<length x_tags. x_tags ! i =
             (if \<exists>j<length ?ts. ent_iob (?ts ! j) = 0 \<and> ?g ! j = Some i
              then None else Some (tags ! i))"
  proof (intro allI impI)
    fix i assume i: "i < length x_tags"
    show "x_tags ! i = (if \<exists>j<length ?ts. ent_iob (?ts ! j) = 0 \<and> ?g ! j = Some i
                        then None else Some (tags ! i))"
    proof (cases "marked ?g 0 ?ts i")
      case True
      then have "x_tags ! i = None" using s by blast
      then show ?thesis using True mk by simp
    next
      case False
      then have "x_tags ! i = (map Some tags) ! i" using s i len by simp
      then have "x_tags ! i = Some (tags ! i)" using i len by simp
      then show ?thesis using False mk by simp
    qed
  qed
  have a3: "\<forall>(y_ent :: span) x_start x_end.
               getitem ?g (span_start y_ent) = Inr x_start
               \<and> getitem_int ?g (int (span_end y_ent) - 1) = Inr x_end
               \<and> (x_start = None \<or> x_end = None)
               \<and> str_count (doc_text (predicted e)) (span_text y_ent) \<noteq> 1
               \<longrightarrow> align_ents c ?g (predicted e) [y_ent] = Inr []"
  proof (intro allI impI)
    fix y_ent :: span and x_start x_end
    assume h: "getitem ?g (span_start y_ent) = Inr x_start
               \<and> getitem_int ?g (int (span_end y_ent) - 1) = Inr x_end
               \<and> (x_start = None \<or> x_end = None)
               \<and> str_count (doc_text (predicted e)) (span_text y_ent) \<noteq> 1"
    then have "align_ent c ?g (predicted e) y_ent = Inr None"
      using align_ent_dropped[of ?g y_ent x_start x_end "predicted e" c] by blast
    then show "align_ents c ?g (predicted e) [y_ent] = Inr []" by simp
  qed
  show ?thesis using al bt len a1 a2 a3 by blast
qed

theorem get_aligned_ner_unknown_witness:
  "get_aligned_ner plain_collab
     \<lparr>cand_to_gold = [Some 0, Some 1], gold_to_cand = [Some 0, Some 1],
      i2j_multi = [], j2i_multi = []\<rparr>
     \<lparr>predicted = mk_doc [mk_token ''Utah'' 0, mk_token ''is'' 0],
      reference =
        \<lparr>tokens = [(mk_token ''Utah'' 0)\<lparr>ent_iob := 3\<rparr>, mk_token ''is'' 0],
         is_sentenced = True, sents = [(0, 2)],
         ents = [\<lparr>span_start = 0, span_end = 1, start_char = 0, end_char = 4,
                  span_text = ''Utah'', label = ''GPE'', kb_id = []\<rparr>],
         cats = []\<rparr>,
      cached_alignment = None\<rparr>
   = Inr [Some ''U-GPE'', None]
   \<and> [Some ''U-GPE'', None] ! 1 = (None :: string option)"
proof -
  let ?a = "\<lparr>cand_to_gold = [Some 0, Some 1], gold_to_cand = [Some 0, Some 1],
      i2j_multi = [], j2i_multi = []\<rparr>"
  let ?e = "\<lparr>predicted = mk_doc [mk_token ''Utah'' 0, mk_token ''is'' 0],
      reference =
        \<lparr>tokens = [(mk_token ''Utah'' 0)\<lparr>ent_iob := 3\<rparr>, mk_token ''is'' 0],
         is_sentenced = True, sents = [(0, 2)],
         ents = [\<lparr>span_start = 0, span_end = 1, start_char = 0, end_char = 4,
                  span_text = ''Utah'', label = ''GPE'', kb_id = []\<rparr>],
         cats = []\<rparr>,
      cached_alignment = None\<rparr>"
  have h: "get_aligned_ner plain_collab ?a ?e = Inr [Some ''U-GPE'', None]"
    by (simp add: get_aligned_ner_def align_ent_def getitem_def getitem_int_def mk_doc_def
        mk_token_def plain_collab_def plain_tag_def plain_span_def token_start_char_def
        token_end_char_def doc_text_def)
  from get_aligned_ner_unknown[OF h] obtain tags where
    f: "\<forall>i<length [Some ''U-GPE'', None :: string option].
        [Some ''U-GPE'', None] ! i =
          (if \<exists>j<length (tokens (reference ?e)). ent_iob (tokens (reference ?e) ! j) = 0
                 \<and> gold_to_cand ?a ! j = Some i
           then None else Some (tags ! i))"
    by blast
  have one: "(1 :: nat) < length [Some ''U-GPE'', None :: string option]" by simp
  note g = f[rule_format, OF one]
  have ex: "\<exists>j<length (tokens (reference ?e)). ent_iob (tokens (reference ?e) ! j) = 0
                 \<and> gold_to_cand ?a ! j = Some (1 :: nat)"
    by (intro exI[of _ 1]) (simp add: mk_token_def)
  have "[Some ''U-GPE'', None] ! 1 = (None :: string option)"
    using g by (simp only: ex if_True)
  then show ?thesis using h by (rule conjI[rotated])
qed

text \<open>
  C3 as stated fails: the reference entity over \<^verbatim>\<open>a\<close> and \<^verbatim>\<open>bc\<close> cannot be
  mapped (its last token has no partner and its text does not occur in the predicted text)
  and is dropped, yet the predicted token \<^verbatim>\<open>a\<close>, the partner of the reference token that
  begins the entity, is tagged \<^verbatim>\<open>O\<close>, not \<^verbatim>\<open>None\<close>.
\<close>

theorem get_aligned_ner_dropped_entity_outside:
  "align_ents plain_collab [Some 0, None]
     (mk_doc [mk_token ''a'' 0, mk_token ''b'' 0, mk_token ''c'' 0])
     [\<lparr>span_start = 0, span_end = 2, start_char = 0, end_char = 4,
       span_text = ''a bc'', label = ''X'', kb_id = []\<rparr>]
   = Inr []
   \<and> get_aligned_ner plain_collab
     \<lparr>cand_to_gold = [Some 0, None, None], gold_to_cand = [Some 0, None],
      i2j_multi = [(1, 1), (2, 1)], j2i_multi = []\<rparr>
     \<lparr>predicted = mk_doc [mk_token ''a'' 0, mk_token ''b'' 0, mk_token ''c'' 0],
      reference =
        \<lparr>tokens = [(mk_token ''a'' 0)\<lparr>ent_iob := 3\<rparr>, (mk_token ''bc'' 0)\<lparr>ent_iob := 1\<rparr>],
         is_sentenced = True, sents = [(0, 2)],
         ents = [\<lparr>span_start = 0, span_end = 2, start_char = 0, end_char = 4,
                  span_text = ''a bc'', label = ''X'', kb_id = []\<rparr>],
         cats = []\<rparr>,
      cached_alignment = None\<rparr>
   = Inr [Some ''O'', Some ''O'', Some ''O'']"
  by (simp add: get_aligned_ner_def align_ent_def getitem_def getitem_int_def mk_doc_def
      mk_token_def doc_text_def str_count_def plain_collab_def plain_tag_def)

end
